theory Spec2Isabelle
  imports Complex_Main "HOL-Library.Log_Nat"
begin

section \<open>The reinforcement-learning agent of \<^verbatim>\<open>agent.py\<close>\<close>

text \<open>
  The development embeds class \<^verbatim>\<open>AIAgent\<close> of \<^verbatim>\<open>src/agent.py\<close>: the state
  discretisation, the transition and reward counting, the re-estimation of the model, the
  value-iteration loop and the epsilon-greedy action choice.

  Conventions of the embedding.
  \<^item> A numpy \<^verbatim>\<open>float64\<close> array is a list of \<^typ>\<open>real\<close>; array arithmetic (sums,
    quotients, dot products, comparisons) is exact real arithmetic. All arrays are allocated
    once, by \<^verbatim>\<open>initialize_mdp_data\<close>, with shapes fixed by \<^verbatim>\<open>num_states\<close>; the
    predicate \<open>wf_mdp\<close> below records these shapes.
  \<^item> The scalar \<^verbatim>\<open>self.eps\<close> is the one quantity that the program accumulates by
    repeated floating-point addition of a constant; its update is modelled with the binary64
    rounding written out (\<open>round_binary64\<close>).
  \<^item> An exception is a value \<open>Inl e\<close> of a sum type; a loop that may run forever returns
    an \<open>option\<close>, with \<open>None\<close> for not returning.
  \<^item> The game (\<^verbatim>\<open>self.dino\<close>) and the random generator are outside the class: what
    the agent reads from them is a parameter of the function that reads it.
\<close>

subsection \<open>Constants and data\<close>

datatype py_error = KeyError | ValueError | IndexError

text \<open>\<^verbatim>\<open>OBSTACLE_TYPES\<close>, \<^verbatim>\<open>MAX_CONSECUTIVE_OBS\<close>, \<^verbatim>\<open>PTERODACTYL_HEIGHTS\<close>.\<close>

definition OBSTACLE_TYPES :: "(string \<times> nat) list" where
  "OBSTACLE_TYPES = [(''CACTUS_SMALL'', 0), (''CACTUS_LARGE'', 1), (''PTERODACTYL'', 2)]"

definition MAX_CONSECUTIVE_OBS :: nat where
  "MAX_CONSECUTIVE_OBS = 3"

definition PTERODACTYL_HEIGHTS :: "real list" where
  "PTERODACTYL_HEIGHTS = [50, 75, 100]"

text \<open>
  The state of the game is a dictionary with the keys \<^verbatim>\<open>'type'\<close>, \<^verbatim>\<open>'config'\<close> and
  \<^verbatim>\<open>'dx'\<close>, or a value that Python takes as false (\<^verbatim>\<open>None\<close>, an empty dictionary)
  when no obstacle exists: an \<open>observation option\<close>.
\<close>

record observation =
  type :: string
  config :: real
  dx :: real

text \<open>
  The dictionary \<^verbatim>\<open>mdp_data\<close>. The three arrays of \<^verbatim>\<open>'state_discretization'\<close> are
  the fields \<open>dx_s\<close>, \<open>dn_cactus_s\<close> and \<open>dy_pter_s\<close>; the entry \<^verbatim>\<open>'value'\<close> is the
  field \<open>value_fn\<close>.
\<close>

record mdp_data =
  num_states :: nat
  dx_s :: "real list"
  dn_cactus_s :: "real list"
  dy_pter_s :: "real list"
  transition_counts :: "real list list list"
  transition_probs :: "real list list list"
  reward_counts :: "real list list"
  reward :: "real list"
  value_fn :: "real list"

subsection \<open>numpy primitives\<close>

text \<open>
  \<^verbatim>\<open>np.argmin\<close> returns the index of the first occurrence of the minimum and raises
  \<^verbatim>\<open>ValueError\<close> on an empty array.
\<close>

fun argmin_list :: "real list \<Rightarrow> nat" where
  "argmin_list [] = 0"
| "argmin_list [x] = 0"
| "argmin_list (x # y # ys) =
     (let j = argmin_list (y # ys) in if x \<le> (y # ys) ! j then 0 else Suc j)"

definition np_argmin :: "real list \<Rightarrow> py_error + nat" where
  "np_argmin xs = (if xs = [] then Inl ValueError else Inr (argmin_list xs))"

text \<open>
  \<^verbatim>\<open>np.linspace(start, stop, num)\<close>: \<^verbatim>\<open>num\<close> evenly spaced points, both ends
  included; a negative \<^verbatim>\<open>num\<close> raises \<^verbatim>\<open>ValueError\<close>, and a single point is
  \<^verbatim>\<open>start\<close>.
\<close>

definition np_linspace :: "real \<Rightarrow> real \<Rightarrow> int \<Rightarrow> py_error + real list" where
  "np_linspace start stop num =
     (if num < 0 then Inl ValueError
      else if num \<le> 1 then Inr (replicate (nat num) start)
      else Inr (map (\<lambda>i. start + real i * ((stop - start) / real (nat num - 1))) [0..<nat num]))"

text \<open>\<^verbatim>\<open>a.dot(b)\<close> of two vectors.\<close>

definition dot :: "real list \<Rightarrow> real list \<Rightarrow> real" where
  "dot xs ys = sum_list (map2 (*) xs ys)"

subsection \<open>\<^verbatim>\<open>initialize_mdp_data\<close>\<close>

definition initialize_mdp_data :: "int \<Rightarrow> real \<Rightarrow> py_error + mdp_data" where
  "initialize_mdp_data n_x max_dx =
     (case np_linspace 0 max_dx n_x of
        Inl e \<Rightarrow> Inl e
      | Inr grid \<Rightarrow>
          (let ns = ((length OBSTACLE_TYPES - 1) * MAX_CONSECUTIVE_OBS
                       + 1 * length PTERODACTYL_HEIGHTS) * nat n_x + 2
           in Inr \<lparr> num_states = ns,
                    dx_s = grid,
                    dn_cactus_s = map real [1..<MAX_CONSECUTIVE_OBS + 1],
                    dy_pter_s = PTERODACTYL_HEIGHTS,
                    transition_counts = replicate ns (replicate 3 (replicate ns 0)),
                    transition_probs = replicate ns (replicate 3 (replicate ns (1 / real ns))),
                    reward_counts = replicate ns (replicate 2 0),
                    reward = replicate ns 0,
                    value_fn = replicate ns 0 \<rparr>))"

subsection \<open>\<^verbatim>\<open>get_closest_state_idx\<close>\<close>

text \<open>
  The early return for a missing obstacle comes before everything else; the lookup
  \<^verbatim>\<open>OBSTACLE_TYPES[state['type']]\<close> raises \<^verbatim>\<open>KeyError\<close> for a key that is not in
  the dictionary; the factor \<^verbatim>\<open>(not isFail)\<close> is 0 or 1.
\<close>

definition get_closest_state_idx :: "mdp_data \<Rightarrow> observation option \<Rightarrow> bool \<Rightarrow> py_error + nat" where
  "get_closest_state_idx m state isFail =
     (case state of
        None \<Rightarrow> Inr 1
      | Some st \<Rightarrow>
          (case map_of OBSTACLE_TYPES (type st) of
             None \<Rightarrow> Inl KeyError
           | Some obs_type \<Rightarrow>
               (case (if type st = ''PTERODACTYL''
                      then np_argmin (map (\<lambda>y. \<bar>y - config st\<bar>) (dy_pter_s m))
                      else np_argmin (map (\<lambda>n. \<bar>n - config st\<bar>) (dn_cactus_s m))) of
                  Inl e \<Rightarrow> Inl e
                | Inr j \<Rightarrow>
                    (case np_argmin (map (\<lambda>x. \<bar>x - dx st\<bar>) (dx_s m)) of
                       Inl e \<Rightarrow> Inl e
                     | Inr k \<Rightarrow>
                         Inr ((if isFail then 0 else 1)
                              * (obs_type * length (dy_pter_s m) * length (dx_s m)
                                 + j * length (dx_s m) + k + 2))))))"

subsection \<open>\<^verbatim>\<open>update_mdp_counts\<close>\<close>

text \<open>
  An integer index into an axis of length \<open>n\<close>: Python counts a negative index from the
  end and raises \<^verbatim>\<open>IndexError\<close> outside \<open>-n \<le> i < n\<close>.
\<close>

definition np_index :: "nat \<Rightarrow> int \<Rightarrow> py_error + nat" where
  "np_index n i =
     (if 0 \<le> i \<and> i < int n then Inr (nat i)
      else if - int n \<le> i \<and> i < 0 then Inr (nat (i + int n))
      else Inl IndexError)"

text \<open>
  The three in-place updates. The arrays have the shapes \<^verbatim>\<open>(num_states, 3, num_states)\<close>
  and \<^verbatim>\<open>(num_states, 2)\<close>; an exception of the first update leaves all of them as
  they were.
\<close>

definition update_mdp_counts ::
  "mdp_data \<Rightarrow> observation option \<Rightarrow> int \<Rightarrow> observation option \<Rightarrow> real \<Rightarrow> bool
     \<Rightarrow> py_error + mdp_data" where
  "update_mdp_counts m state action new_state rew isCrashed =
     (case get_closest_state_idx m state False of
        Inl e \<Rightarrow> Inl e
      | Inr s \<Rightarrow>
          (case get_closest_state_idx m new_state isCrashed of
             Inl e \<Rightarrow> Inl e
           | Inr new_s \<Rightarrow>
               (case np_index 3 action of
                  Inl e \<Rightarrow> Inl e
                | Inr a \<Rightarrow>
                    if s < num_states m \<and> new_s < num_states m
                    then
                      (let tc = transition_counts m; rc = reward_counts m
                       in Inr (m\<lparr> transition_counts :=
                                    tc[s := (tc ! s)[a := (tc ! s ! a)[new_s := tc ! s ! a ! new_s + 1]]],
                                  reward_counts :=
                                    rc[new_s := [rc ! new_s ! 0 + rew, rc ! new_s ! 1 + 1]] \<rparr>))
                    else Inl IndexError)))"

subsection \<open>\<^verbatim>\<open>update_mdp_parameters\<close>\<close>

text \<open>
  The function has three parts, named here after its comments. The first replaces the
  rows \<^verbatim>\<open>transition_probs[s, a, :]\<close> of the pairs whose counts have a positive sum by
  the counts divided by that sum; the second replaces the reward of the states that were
  reached at least once by the mean of the rewards recorded there.
\<close>

definition update_transition_function :: "mdp_data \<Rightarrow> mdp_data" where
  "update_transition_function m =
     m\<lparr> transition_probs :=
          map2 (map2 (\<lambda>c p. if sum_list c > 0 then map (\<lambda>x. x / sum_list c) c else p))
            (transition_counts m) (transition_probs m) \<rparr>"

definition update_reward_function :: "mdp_data \<Rightarrow> mdp_data" where
  "update_reward_function m =
     m\<lparr> reward :=
          map2 (\<lambda>rc r. if rc ! 1 > 0 then rc ! 0 / rc ! 1 else r) (reward_counts m) (reward m) \<rparr>"

text \<open>
  One pass of the \<^verbatim>\<open>while True\<close> loop computes \<^verbatim>\<open>value_nojump\<close>,
  \<^verbatim>\<open>value_jump\<close>, \<^verbatim>\<open>new_value\<close> and \<^verbatim>\<open>max_diff\<close> from the value function of
  the pass before. Only the rows of the actions 0 and 1 are read.
\<close>

definition value_nojump :: "real list list list \<Rightarrow> real list \<Rightarrow> real list" where
  "value_nojump P v = map (\<lambda>row. dot (row ! 0) v) P"

definition value_jump :: "real list list list \<Rightarrow> real list \<Rightarrow> real list" where
  "value_jump P v = map (\<lambda>row. dot (row ! 1) v) P"

definition new_value :: "real list list list \<Rightarrow> real list \<Rightarrow> real \<Rightarrow> real list \<Rightarrow> real list" where
  "new_value P R g v =
     map2 (\<lambda>r q. r + g * q) R (map2 max (value_nojump P v) (value_jump P v))"

definition max_diff :: "real list \<Rightarrow> real list \<Rightarrow> real" where
  "max_diff nv v = Max (set (map2 (\<lambda>a b. \<bar>a - b\<bar>) nv v))"

text \<open>
  The loop has no bound on the number of passes: it leaves through \<^verbatim>\<open>break\<close> only, so
  not returning is the value \<open>None\<close>.
\<close>

partial_function (option) value_iteration ::
  "real list list list \<Rightarrow> real list \<Rightarrow> real \<Rightarrow> real \<Rightarrow> real list \<Rightarrow> real list option" where
  "value_iteration P R g tol v =
     (let nv = new_value P R g v;
          d = max_diff nv v
      in if d < tol then Some nv else value_iteration P R g tol nv)"

declare value_iteration.simps [code]

definition update_mdp_parameters :: "real \<Rightarrow> real \<Rightarrow> mdp_data \<Rightarrow> mdp_data option" where
  "update_mdp_parameters g tol m =
     (let m' = update_reward_function (update_transition_function m)
      in map_option (\<lambda>v. m'\<lparr> value_fn := v \<rparr>)
           (value_iteration (transition_probs m') (reward m') g tol (value_fn m')))"

subsection \<open>\<^verbatim>\<open>best_action\<close>\<close>

text \<open>A Python truth value multiplied by an integer is 0 or that integer.\<close>

definition best_action :: "mdp_data \<Rightarrow> observation option \<Rightarrow> py_error + int" where
  "best_action m state =
     (case get_closest_state_idx m state False of
        Inl e \<Rightarrow> Inl e
      | Inr s \<Rightarrow>
          if s < num_states m
          then
            (let score_nothing = dot (transition_probs m ! s ! 0) (value_fn m);
                 score_jump = dot (transition_probs m ! s ! 1) (value_fn m);
                 score_duck = dot (transition_probs m ! s ! 2) (value_fn m)
             in Inr ((if score_jump > score_nothing \<and> score_jump \<ge> score_duck then 1 else 0) * 1
                     + (if score_duck > score_nothing \<and> score_duck > score_jump then 1 else 0) * 2))
          else Inl IndexError)"

subsection \<open>Binary64 arithmetic of \<^verbatim>\<open>self.eps\<close>\<close>

text \<open>
  A Python float is an IEEE 754 binary64 number; the sum of two floats is the exact sum
  rounded to the nearest number with a significand of 53 bits, a tie going to the even
  significand. For a positive \<open>x\<close> with \<open>2 ^ e \<le> x < 2 ^ (e + 1)\<close> these numbers are the
  multiples of \<open>2 ^ (e - 52)\<close>. The definitions cover the positive normal range; the
  values of \<^verbatim>\<open>eps\<close> stay between 1 and \<open>2 ^ 47\<close> (lemma
  \<open>reachable_agent_eps_range\<close>).
\<close>

definition round_half_even :: "real \<Rightarrow> int" where
  "round_half_even x =
     (let n = \<lfloor>x\<rfloor>; f = x - of_int n
      in if f < 1 / 2 then n else if f > 1 / 2 then n + 1 else if even n then n else n + 1)"

definition binary64_exponent :: "real \<Rightarrow> int" where
  "binary64_exponent x =
     (if 1 \<le> x then int (floorlog 2 (nat \<lfloor>x\<rfloor>)) - 1
      else - int (floorlog 2 (nat (\<lceil>1 / x\<rceil> - 1))))"

definition round_binary64 :: "real \<Rightarrow> real" where
  "round_binary64 x =
     (let u = 2 powi (binary64_exponent x - 52)
      in of_int (round_half_even (x / u)) * u)"

definition fadd :: "real \<Rightarrow> real \<Rightarrow> real" where
  "fadd x y = round_binary64 (x + y)"


text \<open>The float that the literal \<^verbatim>\<open>0.01\<close> denotes.\<close>

definition float_0_01 :: real where
  "float_0_01 = 5764607523034235 / 2 ^ 59"

subsection \<open>The agent\<close>

record agent =
  gamma :: real
  eps :: real
  tolerance :: real
  mdp :: mdp_data
  state :: "observation option"
  action :: int

text \<open>
  \<^verbatim>\<open>__init__\<close>: the arguments are \<^verbatim>\<open>args.gamma\<close>, \<^verbatim>\<open>args.tolerance\<close>,
  \<^verbatim>\<open>args.n_x\<close>, \<^verbatim>\<open>args.max_dx\<close> and the result of \<^verbatim>\<open>dino.get_state()\<close>.
\<close>

definition AIAgent_init ::
  "real \<Rightarrow> real \<Rightarrow> int \<Rightarrow> real \<Rightarrow> observation option \<Rightarrow> py_error + agent" where
  "AIAgent_init args_gamma args_tolerance n_x max_dx dino_state =
     (case initialize_mdp_data n_x max_dx of
        Inl e \<Rightarrow> Inl e
      | Inr m \<Rightarrow>
          Inr \<lparr> gamma = args_gamma, eps = 1, tolerance = args_tolerance, mdp = m,
                state = dino_state, action = 0 \<rparr>)"

definition get_reward :: "bool \<Rightarrow> real" where
  "get_reward isCrashed = (if isCrashed then - 1000 else 1)"

text \<open>\<^verbatim>\<open>reset\<close> returns when the value iteration does.\<close>

definition reset :: "agent \<Rightarrow> agent option" where
  "reset a =
     map_option (\<lambda>m'. a\<lparr> mdp := m', eps := fadd (eps a) float_0_01 \<rparr>)
       (update_mdp_parameters (gamma a) (tolerance a) (mdp a))"


text \<open>
  \<^verbatim>\<open>choose_action\<close>: \<open>r1\<close> is the first draw of \<^verbatim>\<open>np.random.rand()\<close>, \<open>r2\<close> the
  draw of the \<^verbatim>\<open>else\<close> branch; both lie in \<open>[0, 1)\<close>. The \<^verbatim>\<open>else\<close> branch stores
  a truth value, which Python compares and counts as 1 or 0. The commands sent to the game
  follow from the action chosen.
\<close>

definition choose_action :: "agent \<Rightarrow> real \<Rightarrow> real \<Rightarrow> py_error + agent" where
  "choose_action a r1 r2 =
     (if r1 < eps a
      then (case best_action (mdp a) (state a) of
              Inl e \<Rightarrow> Inl e
            | Inr act \<Rightarrow> Inr (a\<lparr> action := act \<rparr>))
      else Inr (a\<lparr> action := (if r2 < float_0_01 then 1 else 0) \<rparr>))"

datatype dino_command = Jump | Duck

definition dino_command_of :: "agent \<Rightarrow> dino_command option" where
  "dino_command_of a =
     (if action a = 1 then Some Jump else if action a = 2 then Some Duck else None)"

text \<open>
  \<^verbatim>\<open>set_transition\<close>: the arguments are the results of \<^verbatim>\<open>dino.is_crashed()\<close> and
  \<^verbatim>\<open>dino.get_state()\<close>.
\<close>

definition set_transition :: "agent \<Rightarrow> bool \<Rightarrow> observation option \<Rightarrow> py_error + agent" where
  "set_transition a isCrashed new_state =
     (case update_mdp_counts (mdp a) (state a) (action a) new_state (get_reward isCrashed) isCrashed of
        Inl e \<Rightarrow> Inl e
      | Inr m' \<Rightarrow> Inr (a\<lparr> mdp := m', state := new_state \<rparr>))"

subsection \<open>Notions used in the statements\<close>

text \<open>
  Nearest-neighbour selection as the specification words it: \<open>j\<close> is a bucket of the
  grid at the least distance from \<open>x\<close>, and every bucket before it is strictly farther.
\<close>

definition nearest_bucket :: "real list \<Rightarrow> real \<Rightarrow> nat \<Rightarrow> bool" where
  "nearest_bucket grid x j \<longleftrightarrow>
     j < length grid \<and> (\<forall>i<length grid. \<bar>grid ! j - x\<bar> \<le> \<bar>grid ! i - x\<bar>)
       \<and> (\<forall>i<j. \<bar>grid ! j - x\<bar> < \<bar>grid ! i - x\<bar>)"

text \<open>
  The shape \<^verbatim>\<open>(n, 3, n)\<close> of the two transition arrays, and row-stochasticity: the
  entries of every row \<open>P[s, a, :]\<close> are non-negative and sum to 1.
\<close>

definition shape3 :: "nat \<Rightarrow> real list list list \<Rightarrow> bool" where
  "shape3 n t \<longleftrightarrow> length t = n \<and> (\<forall>row\<in>set t. length row = 3 \<and> (\<forall>r\<in>set row. length r = n))"

definition row_stochastic :: "real list list list \<Rightarrow> bool" where
  "row_stochastic P \<longleftrightarrow> (\<forall>row\<in>set P. \<forall>p\<in>set row. (\<forall>x\<in>set p. 0 \<le> x) \<and> sum_list p = 1)"

text \<open>A model with two states, used to instantiate the statements about the loop.\<close>

definition example_P :: "real list list list" where
  "example_P = [[[1 / 2, 1 / 2], [1, 0], [0, 1]], [[0, 1], [1 / 2, 1 / 2], [1, 0]]]"

definition example_R :: "real list" where
  "example_R = [1, - 1000]"

text \<open>
  The shapes that \<^verbatim>\<open>initialize_mdp_data\<close> gives to the arrays of a model, and the
  models the program can hold: the initial one, and those that any sequence of calls of
  \<^verbatim>\<open>update_mdp_counts\<close> and \<^verbatim>\<open>update_mdp_parameters\<close> that return makes of it.
\<close>

definition wf_mdp :: "mdp_data \<Rightarrow> bool" where
  "wf_mdp m \<longleftrightarrow>
     0 < num_states m
     \<and> shape3 (num_states m) (transition_counts m)
     \<and> shape3 (num_states m) (transition_probs m)
     \<and> length (reward_counts m) = num_states m
     \<and> (\<forall>rc\<in>set (reward_counts m). length rc = 2)
     \<and> length (reward m) = num_states m
     \<and> length (value_fn m) = num_states m"

definition counts_nonneg :: "mdp_data \<Rightarrow> bool" where
  "counts_nonneg m \<longleftrightarrow> (\<forall>row\<in>set (transition_counts m). \<forall>c\<in>set row. \<forall>x\<in>set c. 0 \<le> x)"

inductive reachable_mdp :: "mdp_data \<Rightarrow> bool" where
  init: "initialize_mdp_data n_x max_dx = Inr m \<Longrightarrow> reachable_mdp m"
| counts: "reachable_mdp m \<Longrightarrow> update_mdp_counts m obs a new_obs rew isCrashed = Inr m'
             \<Longrightarrow> reachable_mdp m'"
| parameters: "reachable_mdp m \<Longrightarrow> update_mdp_parameters g tol m = Some m'
             \<Longrightarrow> reachable_mdp m'"

text \<open>
  The scenario of a single transition: a model with one distance bucket, one recorded jump
  from the state without an obstacle to a small cactus at distance 0, and one
  re-estimation with discount 1/2 and tolerance 1/100.
\<close>

definition scenario_obs :: observation where
  "scenario_obs = \<lparr>type = ''CACTUS_SMALL'', config = 1, dx = 0\<rparr>"

definition scenario_m0 :: mdp_data where
  "scenario_m0 = projr (initialize_mdp_data 1 600)"

definition scenario_m1 :: mdp_data where
  "scenario_m1 = projr (update_mdp_counts scenario_m0 None 1 (Some scenario_obs) 1 False)"

definition scenario_m2 :: mdp_data where
  "scenario_m2 = the (update_mdp_parameters (1 / 2) (1 / 100) scenario_m1)"

text \<open>
  A model with two states and distinct values, in which the three scores of the state 1
  differ: 1 for doing nothing, 3 for a jump and 5 for ducking.
\<close>

definition example_mdp :: mdp_data where
  "example_mdp =
     \<lparr> num_states = 2, dx_s = [], dn_cactus_s = [1, 2, 3], dy_pter_s = [50, 75, 100],
       transition_counts = replicate 2 (replicate 3 (replicate 2 0)),
       transition_probs = example_P,
       reward_counts = replicate 2 (replicate 2 0),
       reward = example_R,
       value_fn = [5, 1] \<rparr>"



text \<open>
  The greedy branch of \<^verbatim>\<open>choose_action\<close> on its own, and the agents that the program
  can hold: the one that \<^verbatim>\<open>__init__\<close> builds, changed by any sequence of calls of
  \<^verbatim>\<open>choose_action\<close> (with draws in \<open>[0, 1)\<close>), \<^verbatim>\<open>set_transition\<close> and
  \<^verbatim>\<open>reset\<close> that return.
\<close>

definition greedy_branch :: "agent \<Rightarrow> py_error + agent" where
  "greedy_branch a =
     (case best_action (mdp a) (state a) of
        Inl e \<Rightarrow> Inl e
      | Inr act \<Rightarrow> Inr (a\<lparr> action := act \<rparr>))"

inductive reachable_agent :: "agent \<Rightarrow> bool" where
  created: "AIAgent_init args_gamma args_tolerance n_x max_dx dino_state = Inr a
              \<Longrightarrow> reachable_agent a"
| chosen: "reachable_agent a \<Longrightarrow> 0 \<le> r1 \<Longrightarrow> r1 < 1 \<Longrightarrow> 0 \<le> r2 \<Longrightarrow> r2 < 1
              \<Longrightarrow> choose_action a r1 r2 = Inr a' \<Longrightarrow> reachable_agent a'"
| transition: "reachable_agent a \<Longrightarrow> set_transition a isCrashed new_state = Inr a'
              \<Longrightarrow> reachable_agent a'"
| restarted: "reachable_agent a \<Longrightarrow> reset a = Some a' \<Longrightarrow> reachable_agent a'"

text \<open>An agent with one distance bucket, discount 1/2 and tolerance 1/100.\<close>

definition example_agent :: agent where
  "example_agent = projr (AIAgent_init (1 / 2) (1 / 100) 1 600 None)"

section \<open>Properties\<close>

subsection \<open>The state discretisation\<close>

lemma argmin_list_less: "xs \<noteq> [] \<Longrightarrow> argmin_list xs < length xs"
  by (induction xs rule: argmin_list.induct) (auto simp: Let_def)

lemma argmin_list_le: "i < length xs \<Longrightarrow> xs ! argmin_list xs \<le> xs ! i"
proof (induction xs arbitrary: i rule: argmin_list.induct)
  case 1
  then show ?case by simp
next
  case (2 x)
  then show ?case by simp
next
  case (3 x y ys)
  show ?case
  proof (cases i)
    case 0
    then show ?thesis by (auto simp: Let_def)
  next
    case (Suc k)
    with 3 have "(y # ys) ! argmin_list (y # ys) \<le> (y # ys) ! k" by simp
    with Suc show ?thesis by (auto simp: Let_def)
  qed
qed

lemma argmin_list_first: "i < argmin_list xs \<Longrightarrow> xs ! argmin_list xs < xs ! i"
proof (induction xs arbitrary: i rule: argmin_list.induct)
  case 1
  then show ?case by simp
next
  case (2 x)
  then show ?case by simp
next
  case (3 x y ys)
  show ?case
  proof (cases i)
    case 0
    with 3 show ?thesis by (auto simp: Let_def split: if_splits)
  next
    case (Suc k)
    with 3 show ?thesis by (auto simp: Let_def split: if_splits)
  qed
qed

lemma np_argmin_nearest:
  assumes ne: "grid \<noteq> []"
  shows "\<exists>j. np_argmin (map (\<lambda>g. \<bar>g - x\<bar>) grid) = Inr j \<and> nearest_bucket grid x j"
proof -
  let ?ds = "map (\<lambda>g. \<bar>g - x\<bar>) grid"
  let ?j = "argmin_list ?ds"
  have j: "?j < length grid" using argmin_list_less[of ?ds] ne by simp
  have le: "\<forall>i<length grid. \<bar>grid ! ?j - x\<bar> \<le> \<bar>grid ! i - x\<bar>"
  proof (intro allI impI)
    fix i assume "i < length grid"
    then show "\<bar>grid ! ?j - x\<bar> \<le> \<bar>grid ! i - x\<bar>"
      using argmin_list_le[of i ?ds] j by simp
  qed
  have first: "\<forall>i<?j. \<bar>grid ! ?j - x\<bar> < \<bar>grid ! i - x\<bar>"
  proof (intro allI impI)
    fix i assume "i < ?j"
    then show "\<bar>grid ! ?j - x\<bar> < \<bar>grid ! i - x\<bar>"
      using argmin_list_first[of i ?ds] j by simp
  qed
  show ?thesis using ne j le first by (simp add: np_argmin_def nearest_bucket_def)
qed

text \<open>What \<^verbatim>\<open>initialize_mdp_data\<close> builds: \<open>9 * n_x + 2\<close> states.\<close>

lemma initialize_fields:
  assumes "0 \<le> n_x"
  shows "\<exists>grid. initialize_mdp_data n_x max_dx = Inr
     \<lparr> num_states = 9 * nat n_x + 2, dx_s = grid, dn_cactus_s = [1, 2, 3],
       dy_pter_s = [50, 75, 100],
       transition_counts = replicate (9 * nat n_x + 2) (replicate 3 (replicate (9 * nat n_x + 2) 0)),
       transition_probs = replicate (9 * nat n_x + 2)
          (replicate 3 (replicate (9 * nat n_x + 2) (1 / real (9 * nat n_x + 2)))),
       reward_counts = replicate (9 * nat n_x + 2) (replicate 2 0),
       reward = replicate (9 * nat n_x + 2) 0,
       value_fn = replicate (9 * nat n_x + 2) 0 \<rparr> \<and> length grid = nat n_x"
proof -
  have up: "[Suc 0..<4] = [1, 2, 3::nat]" by (simp add: upt_rec)
  show ?thesis using assms
    by (auto simp: initialize_mdp_data_def np_linspace_def OBSTACLE_TYPES_def
        MAX_CONSECUTIVE_OBS_def PTERODACTYL_HEIGHTS_def Let_def up)
qed

lemma initialize_nonneg:
  "initialize_mdp_data n_x max_dx = Inr m \<Longrightarrow> 0 \<le> n_x"
  by (auto simp: initialize_mdp_data_def np_linspace_def split: if_splits)

lemma initialize_shape:
  assumes "initialize_mdp_data n_x max_dx = Inr m"
  shows "num_states m = 9 * nat n_x + 2 \<and> length (dx_s m) = nat n_x
    \<and> dn_cactus_s m = [1, 2, 3] \<and> dy_pter_s m = [50, 75, 100]"
  using initialize_fields[OF initialize_nonneg[OF assms], of max_dx] assms by auto

lemma initialize_projr:
  "0 \<le> n_x \<Longrightarrow> initialize_mdp_data n_x max_dx = Inr (projr (initialize_mdp_data n_x max_dx))"
  using initialize_fields[of n_x max_dx] by auto

lemma map_of_OBSTACLE_TYPES: "map_of OBSTACLE_TYPES s = Some t \<Longrightarrow> t < 3"
  by (auto simp: OBSTACLE_TYPES_def split: if_splits)

lemma index_bound:
  fixes t j k n :: nat
  assumes "t < 3" "j < 3" "k < n"
  shows "t * 3 * n + j * n + k + 2 < 9 * n + 2"
proof -
  have "t * 3 * n \<le> 2 * 3 * n" using assms(1) by (intro mult_le_mono) auto
  moreover have "j * n \<le> 2 * n" using assms(2) by (intro mult_le_mono) auto
  ultimately show ?thesis using assms(3) by linarith
qed

text \<open>The index of a present observation of a known type, for both values of the flag.\<close>

lemma get_closest_state_idx_present:
  assumes nx: "1 \<le> n_x"
    and init: "initialize_mdp_data n_x max_dx = Inr m"
    and t: "map_of OBSTACLE_TYPES (type st) = Some t"
  shows "\<exists>j k. nearest_bucket (if type st = ''PTERODACTYL'' then dy_pter_s m else dn_cactus_s m)
                  (config st) j
           \<and> nearest_bucket (dx_s m) (dx st) k
           \<and> t * 3 * nat n_x + j * nat n_x + k + 2 < num_states m
           \<and> (\<forall>isFail. get_closest_state_idx m (Some st) isFail =
                Inr ((if isFail then 0 else 1) * (t * 3 * nat n_x + j * nat n_x + k + 2)))"
proof -
  note sh = initialize_shape[OF init]
  have t3: "t < 3" using t by (rule map_of_OBSTACLE_TYPES)
  let ?cfg = "if type st = ''PTERODACTYL'' then dy_pter_s m else dn_cactus_s m"
  have cne: "?cfg \<noteq> []" and clen: "length ?cfg = 3" using sh by auto
  obtain j where j: "np_argmin (map (\<lambda>g. \<bar>g - config st\<bar>) ?cfg) = Inr j"
    and nj: "nearest_bucket ?cfg (config st) j"
    using np_argmin_nearest[OF cne] by blast
  have dne: "dx_s m \<noteq> []" using sh nx by auto
  obtain k where k: "np_argmin (map (\<lambda>g. \<bar>g - dx st\<bar>) (dx_s m)) = Inr k"
    and nk: "nearest_bucket (dx_s m) (dx st) k"
    using np_argmin_nearest[OF dne] by blast
  have j3: "j < 3" using nj clen by (simp add: nearest_bucket_def)
  have kn: "k < nat n_x" using nk sh by (simp add: nearest_bucket_def)
  have j': "(if type st = ''PTERODACTYL''
             then np_argmin (map (\<lambda>y. \<bar>y - config st\<bar>) (dy_pter_s m))
             else np_argmin (map (\<lambda>n. \<bar>n - config st\<bar>) (dn_cactus_s m))) = Inr j"
    using j by (simp split: if_splits)
  have val: "\<forall>isFail. get_closest_state_idx m (Some st) isFail =
      Inr ((if isFail then 0 else 1) * (t * 3 * nat n_x + j * nat n_x + k + 2))"
    unfolding get_closest_state_idx_def using t j' k sh by simp
  have bound: "t * 3 * nat n_x + j * nat n_x + k + 2 < num_states m"
    using index_bound[OF t3 j3 kn] sh by simp
  show ?thesis using nj nk bound val by blast
qed




text \<open>
  Claim C1, as the code has it. With the terminal flag set, every present observation of
  one of the three known obstacle types is mapped to the index 0, in every model built with
  at least one distance bucket. (The claim as worded, for every observation, fails: an
  observation of an unknown type raises \<^verbatim>\<open>KeyError\<close> before the flag is looked at, and
  the early return for a missing obstacle gives 1 whatever the flag is.)
\<close>

theorem terminal_override:
  assumes "1 \<le> n_x"
    and "initialize_mdp_data n_x max_dx = Inr m"
    and "type st \<in> fst ` set OBSTACLE_TYPES"
  shows "get_closest_state_idx m (Some st) True = Inr 0"
proof -
  from assms(3) obtain t where t: "map_of OBSTACLE_TYPES (type st) = Some t"
    by (metis domIff dom_map_of_conv_image_fst not_Some_eq)
  from get_closest_state_idx_present[OF assms(1,2) t] show ?thesis by auto
qed

theorem terminal_override_witness:
  "(1::int) \<le> 2
   \<and> initialize_mdp_data 2 600 = Inr (projr (initialize_mdp_data 2 600))
   \<and> type \<lparr>type = ''PTERODACTYL'', config = 75, dx = 120\<rparr> \<in> fst ` set OBSTACLE_TYPES
   \<and> get_closest_state_idx (projr (initialize_mdp_data 2 600))
        (Some \<lparr>type = ''PTERODACTYL'', config = 75, dx = 120\<rparr>) True = Inr 0"
proof -
  have h1: "(1::int) \<le> 2" by simp
  have h2: "initialize_mdp_data 2 600 = Inr (projr (initialize_mdp_data 2 600))"
    by (rule initialize_projr) simp
  have h3: "type \<lparr>type = ''PTERODACTYL'', config = 75, dx = 120\<rparr> \<in> fst ` set OBSTACLE_TYPES"
    by (simp add: OBSTACLE_TYPES_def)
  note c = terminal_override[OF h1 h2 h3]
  show ?thesis by (intro conjI h1 h2 h3 c)
qed

text \<open>
  Claim C1 as worded is false at two inputs with the terminal flag set: an observation of
  the unknown type \<^verbatim>\<open>'BIRD'\<close> gives \<^verbatim>\<open>KeyError\<close>, and the missing observation
  gives the index 1, not 0.
\<close>

theorem terminal_override_counterexample:
  "get_closest_state_idx (projr (initialize_mdp_data 2 600))
     (Some \<lparr>type = ''BIRD'', config = 1, dx = 10\<rparr>) True = Inl KeyError
   \<and> get_closest_state_idx (projr (initialize_mdp_data 2 600)) None True = Inr 1"
  by (simp add: get_closest_state_idx_def OBSTACLE_TYPES_def)




text \<open>
  Claim C10. A present observation whose obstacle type is none of the three keys of
  \<^verbatim>\<open>OBSTACLE_TYPES\<close> raises \<^verbatim>\<open>KeyError\<close>, in every model and for both values of the
  terminal flag: no index is returned for it.
\<close>

theorem unknown_type_fails:
  assumes "type st \<notin> fst ` set OBSTACLE_TYPES"
  shows "get_closest_state_idx m (Some st) isFail = Inl KeyError"
proof -
  from assms have "map_of OBSTACLE_TYPES (type st) = None"
    by (simp add: map_of_eq_None_iff)
  then show ?thesis
    by (simp add: get_closest_state_idx_def split del: if_split)
qed

theorem unknown_type_fails_witness:
  "type \<lparr>type = ''CACTUS'', config = 2, dx = 40\<rparr> \<notin> fst ` set OBSTACLE_TYPES
   \<and> get_closest_state_idx (projr (initialize_mdp_data 2 600))
        (Some \<lparr>type = ''CACTUS'', config = 2, dx = 40\<rparr>) False = Inl KeyError"
proof -
  have h: "type \<lparr>type = ''CACTUS'', config = 2, dx = 40\<rparr> \<notin> fst ` set OBSTACLE_TYPES"
    by (simp add: OBSTACLE_TYPES_def)
  show ?thesis using unknown_type_fails[OF h] h by simp
qed

subsection \<open>Value iteration\<close>

lemma dot_Nil [simp]: "dot [] ys = 0"
  by (simp add: dot_def)

lemma dot_Cons [simp]: "dot (x # xs) (y # ys) = x * y + dot xs ys"
  by (simp add: dot_def)

lemma dot_diff_bound:
  "length v = length p \<Longrightarrow> length w = length p \<Longrightarrow> \<forall>x\<in>set p. 0 \<le> x
     \<Longrightarrow> \<forall>i<length p. \<bar>v ! i - w ! i\<bar> \<le> d
     \<Longrightarrow> \<bar>dot p v - dot p w\<bar> \<le> sum_list p * d"
proof (induction p arbitrary: v w)
  case Nil
  then show ?case by simp
next
  case (Cons x p)
  from Cons.prems(1) obtain a v' where v: "v = a # v'" by (cases v) auto
  from Cons.prems(2) obtain b w' where w: "w = b # w'" by (cases w) auto
  have x0: "0 \<le> x" using Cons.prems(3) by simp
  have hd: "\<bar>a - b\<bar> \<le> d" using Cons.prems(4) v w by force
  have tl: "\<forall>i<length p. \<bar>v' ! i - w' ! i\<bar> \<le> d"
  proof (intro allI impI)
    fix i assume "i < length p"
    then have "\<bar>v ! Suc i - w ! Suc i\<bar> \<le> d" using Cons.prems(4) by simp
    then show "\<bar>v' ! i - w' ! i\<bar> \<le> d" using v w by simp
  qed
  have ih: "\<bar>dot p v' - dot p w'\<bar> \<le> sum_list p * d"
    using Cons.IH[of v' w'] Cons.prems v w tl by simp
  have "\<bar>dot (x # p) v - dot (x # p) w\<bar> = \<bar>x * (a - b) + (dot p v' - dot p w')\<bar>"
    using v w by (simp add: algebra_simps)
  also have "\<dots> \<le> \<bar>x * (a - b)\<bar> + \<bar>dot p v' - dot p w'\<bar>" by (rule abs_triangle_ineq)
  also have "\<bar>x * (a - b)\<bar> = x * \<bar>a - b\<bar>" using x0 by (simp add: abs_mult)
  also have "x * \<bar>a - b\<bar> + \<bar>dot p v' - dot p w'\<bar> \<le> x * d + sum_list p * d"
    using mult_left_mono[OF hd x0] ih by linarith
  finally show ?case by (simp add: algebra_simps)
qed

lemma shape3_nth:
  assumes "shape3 n P" "s < n" "a < 3"
  shows "length (P ! s) = 3" "length (P ! s ! a) = n" "P ! s \<in> set P" "P ! s ! a \<in> set (P ! s)"
proof -
  from assms(1,2) show m: "P ! s \<in> set P" by (simp add: shape3_def)
  with assms(1) show l: "length (P ! s) = 3" by (simp add: shape3_def)
  from l assms(3) show m2: "P ! s ! a \<in> set (P ! s)" by simp
  with assms(1) m show "length (P ! s ! a) = n" by (simp add: shape3_def)
qed

lemma length_new_value:
  "length P = n \<Longrightarrow> length R = n \<Longrightarrow> length (new_value P R g v) = n"
  by (simp add: new_value_def value_nojump_def value_jump_def)

lemma nth_new_value:
  assumes "length P = n" "length R = n" "s < n"
  shows "new_value P R g v ! s = R ! s + g * max (dot (P ! s ! 0) v) (dot (P ! s ! 1) v)"
  using assms by (simp add: new_value_def value_nojump_def value_jump_def)

lemma set_map2_nth:
  assumes "length a = n" "length b = n"
  shows "set (map2 f a b) = (\<lambda>i. f (a ! i) (b ! i)) ` {..<n}"
proof -
  have "map2 f a b = map (\<lambda>i. f (a ! i) (b ! i)) [0..<n]"
    using assms by (intro nth_equalityI) auto
  then show ?thesis by (simp add: atLeast_upt)
qed


lemma max_diff_le_iff:
  assumes "length a = n" "length b = n" "0 < n"
  shows "max_diff a b \<le> t \<longleftrightarrow> (\<forall>i<n. \<bar>a ! i - b ! i\<bar> \<le> t)"
proof -
  let ?S = "set (map2 (\<lambda>x y. \<bar>x - y\<bar>) a b)"
  have S: "?S = (\<lambda>i. \<bar>a ! i - b ! i\<bar>) ` {..<n}"
    using assms(1,2) by (rule set_map2_nth)
  have "finite ?S" "?S \<noteq> {}" using assms S by auto
  then have "Max ?S \<le> t \<longleftrightarrow> (\<forall>x\<in>?S. x \<le> t)" by (rule Max_le_iff)
  then show ?thesis unfolding max_diff_def S by auto
qed

lemma max_diff_nonneg:
  assumes "length a = n" "length b = n" "0 < n"
  shows "0 \<le> max_diff a b"
proof -
  have "\<bar>a ! 0 - b ! 0\<bar> \<le> max_diff a b"
    using max_diff_le_iff[OF assms, of "max_diff a b"] assms(3) by simp
  then show ?thesis by linarith
qed

text \<open>One pass of the loop is a contraction with factor \<open>g\<close> in the maximum norm.\<close>

lemma new_value_contraction:
  assumes sh: "shape3 n P" and st: "row_stochastic P" and R: "length R = n"
    and g: "0 \<le> g" and v: "length v = n" and w: "length w = n"
    and d: "\<forall>i<n. \<bar>v ! i - w ! i\<bar> \<le> d"
  shows "\<forall>s<n. \<bar>new_value P R g v ! s - new_value P R g w ! s\<bar> \<le> g * d"
proof (intro allI impI)
  fix s assume s: "s < n"
  have lenP: "length P = n" using sh by (simp add: shape3_def)
  have q: "\<bar>dot (P ! s ! a) v - dot (P ! s ! a) w\<bar> \<le> d" if a: "a < 3" for a
  proof -
    note n = shape3_nth[OF sh s a]
    have p: "(\<forall>x\<in>set (P ! s ! a). 0 \<le> x) \<and> sum_list (P ! s ! a) = 1"
      using st n(3,4) by (simp add: row_stochastic_def)
    have "\<bar>dot (P ! s ! a) v - dot (P ! s ! a) w\<bar> \<le> sum_list (P ! s ! a) * d"
      by (rule dot_diff_bound) (use n v w p d in auto)
    with p show ?thesis by simp
  qed
  have q0: "\<bar>dot (P ! s ! 0) v - dot (P ! s ! 0) w\<bar> \<le> d" using q[of 0] by simp
  have q1: "\<bar>dot (P ! s ! 1) v - dot (P ! s ! 1) w\<bar> \<le> d" using q[of 1] by simp
  have m: "\<bar>max (dot (P ! s ! 0) v) (dot (P ! s ! 1) v)
            - max (dot (P ! s ! 0) w) (dot (P ! s ! 1) w)\<bar> \<le> d"
    using q0 q1 by (auto simp: max_def abs_le_iff)
  have "\<bar>new_value P R g v ! s - new_value P R g w ! s\<bar>
      = g * \<bar>max (dot (P ! s ! 0) v) (dot (P ! s ! 1) v)
            - max (dot (P ! s ! 0) w) (dot (P ! s ! 1) w)\<bar>"
    using g by (simp add: nth_new_value[OF lenP R s] abs_mult right_diff_distrib[symmetric])
  also have "\<dots> \<le> g * d" using m g by (rule mult_left_mono)
  finally show "\<bar>new_value P R g v ! s - new_value P R g w ! s\<bar> \<le> g * d" .
qed

lemma length_sweeps:
  "length P = n \<Longrightarrow> length R = n \<Longrightarrow> length v = n
     \<Longrightarrow> length ((new_value P R g ^^ k) v) = n"
  by (induction k) (simp_all add: length_new_value)

lemma sweeps_geometric:
  assumes sh: "shape3 n P" and st: "row_stochastic P" and R: "length R = n"
    and g: "0 \<le> g" and v: "length v = n" and n: "0 < n"
  shows "max_diff ((new_value P R g ^^ Suc k) v) ((new_value P R g ^^ k) v)
           \<le> g ^ k * max_diff (new_value P R g v) v"
proof (induction k)
  case 0
  then show ?case by simp
next
  case (Suc k)
  let ?T = "new_value P R g"
  have lenP: "length P = n" using sh by (simp add: shape3_def)
  have l1: "length ((?T ^^ Suc k) v) = n" and l0: "length ((?T ^^ k) v) = n"
    and l2: "length ((?T ^^ Suc (Suc k)) v) = n"
    using length_sweeps[OF lenP R v] by blast+
  have "\<forall>i<n. \<bar>(?T ^^ Suc k) v ! i - (?T ^^ k) v ! i\<bar> \<le> g ^ k * max_diff (?T v) v"
    using Suc.IH max_diff_le_iff[OF l1 l0 n] by simp
  then have "\<forall>s<n. \<bar>?T ((?T ^^ Suc k) v) ! s - ?T ((?T ^^ k) v) ! s\<bar>
                \<le> g * (g ^ k * max_diff (?T v) v)"
    by (rule new_value_contraction[OF sh st R g l1 l0])
  then have "\<forall>s<n. \<bar>(?T ^^ Suc (Suc k)) v ! s - (?T ^^ Suc k) v ! s\<bar>
                \<le> g ^ Suc k * max_diff (?T v) v"
    by (simp add: mult.assoc)
  then show ?case using max_diff_le_iff[OF l2 l1 n] by simp
qed

lemma geometric_below:
  fixes g tol d :: real
  assumes "0 \<le> g" "g < 1" "0 < tol" "0 \<le> d"
  shows "\<exists>k. g ^ k * d < tol"
proof (cases "d = 0")
  case True
  then show ?thesis using assms(3) by simp
next
  case False
  then have d: "0 < d" using assms(4) by simp
  then have "0 < tol / d" using assms(3) by simp
  then obtain k where "g ^ k < tol / d" using real_arch_pow_inv[OF _ assms(2)] by blast
  then have "g ^ k * d < tol" using d by (simp add: pos_less_divide_eq)
  then show ?thesis ..
qed

lemma value_iteration_steps:
  "\<forall>j<k. \<not> max_diff ((new_value P R g ^^ Suc j) v) ((new_value P R g ^^ j) v) < tol
     \<Longrightarrow> max_diff ((new_value P R g ^^ Suc k) v) ((new_value P R g ^^ k) v) < tol
     \<Longrightarrow> value_iteration P R g tol v = Some ((new_value P R g ^^ Suc k) v)"
proof (induction k arbitrary: v)
  case 0
  then show ?case by (subst value_iteration.simps) (simp add: Let_def)
next
  case (Suc k)
  let ?T = "new_value P R g"
  have first: "\<not> max_diff (?T v) v < tol" using Suc.prems(1) by force
  have sw: "(?T ^^ j) (?T v) = (?T ^^ Suc j) v" for j by (simp add: funpow_swap1)
  have a: "\<forall>j<k. \<not> max_diff ((?T ^^ Suc j) (?T v)) ((?T ^^ j) (?T v)) < tol"
  proof (intro allI impI)
    fix j assume "j < k"
    then have "Suc j < Suc k" by simp
    with Suc.prems(1) have "\<not> max_diff ((?T ^^ Suc (Suc j)) v) ((?T ^^ Suc j) v) < tol"
      by blast
    then show "\<not> max_diff ((?T ^^ Suc j) (?T v)) ((?T ^^ j) (?T v)) < tol"
      using sw[of j] sw[of "Suc j"] by simp
  qed
  have b: "max_diff ((?T ^^ Suc k) (?T v)) ((?T ^^ k) (?T v)) < tol"
    using Suc.prems(2) sw[of k] sw[of "Suc k"] by simp
  have "value_iteration P R g tol v = value_iteration P R g tol (?T v)"
    using first by (subst value_iteration.simps) (simp add: Let_def)
  also have "\<dots> = Some ((?T ^^ Suc k) (?T v))" by (rule Suc.IH[OF a b])
  also have "(?T ^^ Suc k) (?T v) = (?T ^^ Suc (Suc k)) v" by (rule sw)
  finally show ?case .
qed

lemma value_iteration_least:
  assumes sh: "shape3 n P" and st: "row_stochastic P" and R: "length R = n"
    and v: "length v = n" and n: "0 < n" and g: "0 \<le> g" "g < 1" and tol: "0 < tol"
  shows "\<exists>k. value_iteration P R g tol v = Some ((new_value P R g ^^ Suc k) v)
           \<and> max_diff ((new_value P R g ^^ Suc k) v) ((new_value P R g ^^ k) v) < tol
           \<and> (\<forall>j<k. \<not> max_diff ((new_value P R g ^^ Suc j) v) ((new_value P R g ^^ j) v) < tol)"
proof -
  let ?T = "new_value P R g"
  let ?Q = "\<lambda>k. max_diff ((?T ^^ Suc k) v) ((?T ^^ k) v) < tol"
  have lenP: "length P = n" using sh by (simp add: shape3_def)
  have d0: "0 \<le> max_diff (?T v) v"
    by (rule max_diff_nonneg[OF length_new_value[OF lenP R] v n])
  obtain k0 where k0: "g ^ k0 * max_diff (?T v) v < tol"
    using geometric_below[OF g tol d0] by blast
  have "?Q k0" using sweeps_geometric[OF sh st R g(1) v n, of k0] k0 by linarith
  then have least: "?Q (LEAST k. ?Q k)" and before: "\<forall>j<(LEAST k. ?Q k). \<not> ?Q j"
    by (rule LeastI, auto dest: not_less_Least)
  have "value_iteration P R g tol v = Some ((?T ^^ Suc (LEAST k. ?Q k)) v)"
    by (rule value_iteration_steps[OF before least])
  with least before show ?thesis by blast
qed

lemma max_diff_sym:
  assumes "length a = n" "length b = n" "0 < n"
  shows "max_diff a b = max_diff b a"
proof -
  have "max_diff a b \<le> max_diff b a"
    using max_diff_le_iff[OF assms, of "max_diff b a"]
      max_diff_le_iff[OF assms(2,1,3), of "max_diff b a"] by (simp add: abs_minus_commute)
  moreover have "max_diff b a \<le> max_diff a b"
    using max_diff_le_iff[OF assms, of "max_diff a b"]
      max_diff_le_iff[OF assms(2,1,3), of "max_diff a b"] by (simp add: abs_minus_commute)
  ultimately show ?thesis by simp
qed

















subsection \<open>The model: counting and re-estimation\<close>

lemma value_iteration_length:
  "value_iteration P R g tol v = Some y \<Longrightarrow> length y = min (length R) (length P)"
proof -
  assume a: "value_iteration P R g tol v = Some y"
  have "case ((((P, R), g), tol), v) of ((((P, R), g), tol), v) \<Rightarrow>
          length y = min (length R) (length P)"
    by (rule value_iteration.raw_induct[OF _ a])
      (auto simp: Let_def new_value_def value_nojump_def value_jump_def split: if_splits)
  then show ?thesis by simp
qed

lemma shape3_replicate: "shape3 n (replicate n (replicate 3 (replicate n x)))"
  by (simp add: shape3_def)

lemma initialize_wf:
  assumes "initialize_mdp_data n_x max_dx = Inr m"
  shows "wf_mdp m" "counts_nonneg m" "row_stochastic (transition_probs m)"
proof -
  from initialize_fields[OF initialize_nonneg[OF assms], of max_dx] assms
  obtain grid where m: "m = \<lparr> num_states = 9 * nat n_x + 2, dx_s = grid, dn_cactus_s = [1, 2, 3],
       dy_pter_s = [50, 75, 100],
       transition_counts = replicate (9 * nat n_x + 2) (replicate 3 (replicate (9 * nat n_x + 2) 0)),
       transition_probs = replicate (9 * nat n_x + 2)
          (replicate 3 (replicate (9 * nat n_x + 2) (1 / real (9 * nat n_x + 2)))),
       reward_counts = replicate (9 * nat n_x + 2) (replicate 2 0),
       reward = replicate (9 * nat n_x + 2) 0,
       value_fn = replicate (9 * nat n_x + 2) 0 \<rparr>"
    by auto
  define N where "N = 9 * nat n_x + 2"
  have N: "0 < N" by (simp add: N_def)
  have f: "num_states m = N" "transition_counts m = replicate N (replicate 3 (replicate N 0))"
    "transition_probs m = replicate N (replicate 3 (replicate N (1 / real N)))"
    "reward_counts m = replicate N (replicate 2 0)" "reward m = replicate N 0"
    "value_fn m = replicate N 0"
    unfolding N_def by (simp_all add: m)
  show "wf_mdp m" using N by (simp add: f wf_mdp_def shape3_replicate)
  show "counts_nonneg m" by (simp add: f counts_nonneg_def)
  show "row_stochastic (transition_probs m)"
    using N by (simp add: f row_stochastic_def sum_list_replicate)
qed

text \<open>An update of one entry keeps the shape of a three-dimensional array.\<close>

lemma shape3_update:
  assumes "shape3 n t"
  shows "shape3 n (t[s := (t ! s)[a := (t ! s ! a)[s' := x]]])"
proof (cases "s < n \<and> a < 3")
  case True
  note n = shape3_nth[OF assms conjunct1[OF True] conjunct2[OF True]]
  have row: "length ((t ! s)[a := (t ! s ! a)[s' := x]]) = 3" using n by simp
  have inner: "\<forall>r\<in>set ((t ! s)[a := (t ! s ! a)[s' := x]]). length r = n"
  proof
    fix r assume "r \<in> set ((t ! s)[a := (t ! s ! a)[s' := x]])"
    then have "r = (t ! s ! a)[s' := x] \<or> r \<in> set (t ! s)"
      using set_update_subset_insert[of "t ! s" a] by auto
    then show "length r = n" using n assms by (auto simp: shape3_def)
  qed
  show ?thesis unfolding shape3_def
  proof (intro conjI ballI)
    show "length (t[s := (t ! s)[a := (t ! s ! a)[s' := x]]]) = n"
      using assms by (simp add: shape3_def)
  next
    fix row assume "row \<in> set (t[s := (t ! s)[a := (t ! s ! a)[s' := x]]])"
    then have c: "row = (t ! s)[a := (t ! s ! a)[s' := x]] \<or> row \<in> set t"
      using set_update_subset_insert[of t s] by auto
    from c show "length row = 3" using row assms by (auto simp: shape3_def)
    fix r assume "r \<in> set row"
    with c show "length r = n" using inner assms by (auto simp: shape3_def)
  qed
next
  case False
  then consider "\<not> s < n" | "s < n" "\<not> a < 3" by blast
  then show ?thesis
  proof cases
    case 1
    then have "t[s := (t ! s)[a := (t ! s ! a)[s' := x]]] = t"
      using assms by (simp add: shape3_def list_update_beyond)
    then show ?thesis using assms by simp
  next
    case 2
    then have "length (t ! s) = 3" using assms by (simp add: shape3_def)
    with 2 have "(t ! s)[a := (t ! s ! a)[s' := x]] = t ! s"
      by (simp add: list_update_beyond)
    then show ?thesis using assms by simp
  qed
qed

lemma nonneg_update:
  assumes "\<forall>row\<in>set t. \<forall>c\<in>set row. \<forall>x\<in>set c. (0::real) \<le> x"
    and "s < length t" "a < length (t ! s)" "s' < length (t ! s ! a)"
  shows "\<forall>row\<in>set (t[s := (t ! s)[a := (t ! s ! a)[s' := t ! s ! a ! s' + 1]]]).
           \<forall>c\<in>set row. \<forall>x\<in>set c. 0 \<le> x"
proof (intro ballI)
  fix row c x
  assume row: "row \<in> set (t[s := (t ! s)[a := (t ! s ! a)[s' := t ! s ! a ! s' + 1]]])"
    and c: "c \<in> set row" and x: "x \<in> set c"
  have ts: "t ! s \<in> set t" and tsa: "t ! s ! a \<in> set (t ! s)" and old: "t ! s ! a ! s' \<in> set (t ! s ! a)"
    using assms(2-4) by simp_all
  have old0: "0 \<le> t ! s ! a ! s'" using assms(1) ts tsa old by blast
  from row have "row = (t ! s)[a := (t ! s ! a)[s' := t ! s ! a ! s' + 1]] \<or> row \<in> set t"
    using set_update_subset_insert[of t s] by auto
  then show "0 \<le> x"
  proof
    assume "row \<in> set t"
    with assms(1) c x show ?thesis by blast
  next
    assume r: "row = (t ! s)[a := (t ! s ! a)[s' := t ! s ! a ! s' + 1]]"
    with c have "c = (t ! s ! a)[s' := t ! s ! a ! s' + 1] \<or> c \<in> set (t ! s)"
      using set_update_subset_insert[of "t ! s" a] by auto
    then show ?thesis
    proof
      assume "c \<in> set (t ! s)"
      with assms(1) ts x show ?thesis by blast
    next
      assume "c = (t ! s ! a)[s' := t ! s ! a ! s' + 1]"
      with x have "x = t ! s ! a ! s' + 1 \<or> x \<in> set (t ! s ! a)"
        using set_update_subset_insert[of "t ! s ! a" s'] by auto
      then show ?thesis using old0 assms(1) ts tsa by auto
    qed
  qed
qed

lemma np_index_less: "np_index n i = Inr a \<Longrightarrow> a < n"
  by (auto simp: np_index_def split: if_splits)

text \<open>What \<^verbatim>\<open>update_mdp_counts\<close> does when it returns.\<close>

lemma update_mdp_counts_Inr:
  assumes "update_mdp_counts m obs a new_obs rew isCrashed = Inr m'"
  shows "\<exists>s new_s k. get_closest_state_idx m obs False = Inr s
          \<and> get_closest_state_idx m new_obs isCrashed = Inr new_s
          \<and> np_index 3 a = Inr k \<and> s < num_states m \<and> new_s < num_states m
          \<and> m' = m\<lparr> transition_counts :=
                      (transition_counts m)[s := (transition_counts m ! s)[k :=
                         (transition_counts m ! s ! k)[new_s := transition_counts m ! s ! k ! new_s + 1]]],
                    reward_counts :=
                      (reward_counts m)[new_s := [reward_counts m ! new_s ! 0 + rew,
                                                  reward_counts m ! new_s ! 1 + 1]] \<rparr>"
  using assms
  by (auto simp: update_mdp_counts_def Let_def split: sum.splits if_splits)

lemma update_mdp_counts_inv:
  assumes wf: "wf_mdp m" and nn: "counts_nonneg m"
    and up: "update_mdp_counts m obs a new_obs rew isCrashed = Inr m'"
  shows "wf_mdp m'" "counts_nonneg m'" "transition_probs m' = transition_probs m"
    "num_states m' = num_states m"
proof -
  from update_mdp_counts_Inr[OF up] obtain s new_s k where
    k: "np_index 3 a = Inr k" and s: "s < num_states m" and ns: "new_s < num_states m"
    and m': "m' = m\<lparr> transition_counts :=
                      (transition_counts m)[s := (transition_counts m ! s)[k :=
                         (transition_counts m ! s ! k)[new_s := transition_counts m ! s ! k ! new_s + 1]]],
                    reward_counts :=
                      (reward_counts m)[new_s := [reward_counts m ! new_s ! 0 + rew,
                                                  reward_counts m ! new_s ! 1 + 1]] \<rparr>"
    by blast
  have k3: "k < 3" using k by (rule np_index_less)
  have sh: "shape3 (num_states m) (transition_counts m)" using wf by (simp add: wf_mdp_def)
  note n = shape3_nth[OF sh s k3]
  have rc: "\<forall>rc\<in>set ((reward_counts m)[new_s := [reward_counts m ! new_s ! 0 + rew,
                                                  reward_counts m ! new_s ! 1 + 1]]). length rc = 2"
  proof
    fix rc assume "rc \<in> set ((reward_counts m)[new_s := [reward_counts m ! new_s ! 0 + rew,
                                                  reward_counts m ! new_s ! 1 + 1]])"
    then have "rc = [reward_counts m ! new_s ! 0 + rew, reward_counts m ! new_s ! 1 + 1]
                 \<or> rc \<in> set (reward_counts m)"
      using set_update_subset_insert[of "reward_counts m" new_s] by auto
    then show "length rc = 2" using wf by (auto simp: wf_mdp_def)
  qed
  show "wf_mdp m'" using wf rc shape3_update[OF sh] by (simp add: wf_mdp_def m')
  have "s < length (transition_counts m)" using sh s by (simp add: shape3_def)
  moreover have "k < length (transition_counts m ! s)" using n k3 by simp
  moreover have "new_s < length (transition_counts m ! s ! k)" using n ns by simp
  ultimately show "counts_nonneg m'"
    using nonneg_update[of "transition_counts m" s k new_s] nn
    by (simp add: counts_nonneg_def m')
  show "transition_probs m' = transition_probs m" by (simp add: m')
  show "num_states m' = num_states m" by (simp add: m')
qed

lemma shape3_iff_nth:
  "shape3 n t \<longleftrightarrow> length t = n \<and> (\<forall>s<n. length (t ! s) = 3 \<and> (\<forall>a<3. length (t ! s ! a) = n))"
  unfolding shape3_def by (auto simp: all_set_conv_all_nth)

lemma row_stochastic_iff_nth:
  assumes "shape3 n P"
  shows "row_stochastic P \<longleftrightarrow>
           (\<forall>s<n. \<forall>a<3. (\<forall>x\<in>set (P ! s ! a). 0 \<le> x) \<and> sum_list (P ! s ! a) = 1)"
  using assms unfolding row_stochastic_def shape3_def
  by (auto simp: all_set_conv_all_nth)

lemma sum_list_divide:
  fixes c :: real
  shows "sum_list (map (\<lambda>x. x / c) xs) = sum_list xs / c"
  by (induction xs) (simp_all add: add_divide_distrib)

lemma nth_update_transition_function:
  assumes wf: "wf_mdp m" and s: "s < num_states m" and a: "a < 3"
  shows "transition_probs (update_transition_function m) ! s ! a =
           (if sum_list (transition_counts m ! s ! a) > 0
            then map (\<lambda>x. x / sum_list (transition_counts m ! s ! a)) (transition_counts m ! s ! a)
            else transition_probs m ! s ! a)"
proof -
  have c: "shape3 (num_states m) (transition_counts m)"
    and p: "shape3 (num_states m) (transition_probs m)"
    using wf by (simp_all add: wf_mdp_def)
  note nc = shape3_nth[OF c s a] and np = shape3_nth[OF p s a]
  have lc: "length (transition_counts m) = num_states m"
    and lp: "length (transition_probs m) = num_states m"
    using c p by (simp_all add: shape3_def)
  show ?thesis
    using s a nc(1) np(1) lc lp by (simp add: update_transition_function_def)
qed

lemma update_transition_function_fields:
  "num_states (update_transition_function m) = num_states m"
  "transition_counts (update_transition_function m) = transition_counts m"
  "reward_counts (update_transition_function m) = reward_counts m"
  "reward (update_transition_function m) = reward m"
  "value_fn (update_transition_function m) = value_fn m"
  "dx_s (update_transition_function m) = dx_s m"
  "dn_cactus_s (update_transition_function m) = dn_cactus_s m"
  "dy_pter_s (update_transition_function m) = dy_pter_s m"
  by (simp_all add: update_transition_function_def)

lemma update_reward_function_fields:
  "num_states (update_reward_function m) = num_states m"
  "transition_counts (update_reward_function m) = transition_counts m"
  "transition_probs (update_reward_function m) = transition_probs m"
  "reward_counts (update_reward_function m) = reward_counts m"
  "value_fn (update_reward_function m) = value_fn m"
  "dx_s (update_reward_function m) = dx_s m"
  "dn_cactus_s (update_reward_function m) = dn_cactus_s m"
  "dy_pter_s (update_reward_function m) = dy_pter_s m"
  by (simp_all add: update_reward_function_def)

lemma update_transition_function_shape:
  assumes wf: "wf_mdp m"
  shows "shape3 (num_states m) (transition_probs (update_transition_function m))"
proof -
  have c: "shape3 (num_states m) (transition_counts m)"
    and p: "shape3 (num_states m) (transition_probs m)"
    using wf by (simp_all add: wf_mdp_def)
  have len: "length (transition_probs (update_transition_function m)) = num_states m"
    using c p by (simp add: update_transition_function_def shape3_def)
  have rows: "length (transition_probs (update_transition_function m) ! s) = 3
              \<and> (\<forall>a<3. length (transition_probs (update_transition_function m) ! s ! a) = num_states m)"
    if s: "s < num_states m" for s
  proof
    have "length (transition_counts m ! s) = 3" "length (transition_probs m ! s) = 3"
      using shape3_nth(1)[OF c s, of 0] shape3_nth(1)[OF p s, of 0] by simp_all
    then show "length (transition_probs (update_transition_function m) ! s) = 3"
      using s c p by (simp add: update_transition_function_def shape3_def)
    show "\<forall>a<3. length (transition_probs (update_transition_function m) ! s ! a) = num_states m"
    proof (intro allI impI)
      fix a :: nat assume a: "a < 3"
      show "length (transition_probs (update_transition_function m) ! s ! a) = num_states m"
        using shape3_nth(2)[OF c s a] shape3_nth(2)[OF p s a]
        by (simp add: nth_update_transition_function[OF wf s a])
    qed
  qed
  show ?thesis using len rows by (simp add: shape3_iff_nth)
qed

lemma update_transition_function_stochastic:
  assumes wf: "wf_mdp m" and nn: "counts_nonneg m" and st: "row_stochastic (transition_probs m)"
  shows "row_stochastic (transition_probs (update_transition_function m))"
proof -
  have c: "shape3 (num_states m) (transition_counts m)"
    and p: "shape3 (num_states m) (transition_probs m)"
    using wf by (simp_all add: wf_mdp_def)
  have "(\<forall>x\<in>set (transition_probs (update_transition_function m) ! s ! a). 0 \<le> x)
          \<and> sum_list (transition_probs (update_transition_function m) ! s ! a) = 1"
    if s: "s < num_states m" and a: "a < 3" for s a
  proof (cases "sum_list (transition_counts m ! s ! a) > 0")
    case True
    have "\<forall>x\<in>set (transition_counts m ! s ! a). 0 \<le> x"
      using nn shape3_nth(3,4)[OF c s a] by (auto simp: counts_nonneg_def)
    with True show ?thesis
      by (simp add: nth_update_transition_function[OF wf s a] sum_list_divide)
  next
    case False
    then show ?thesis
      using st row_stochastic_iff_nth[OF p] s a
      by (simp add: nth_update_transition_function[OF wf s a])
  qed
  then show ?thesis
    using row_stochastic_iff_nth[OF update_transition_function_shape[OF wf]] by blast
qed

lemma nth_update_reward_function:
  assumes wf: "wf_mdp m" and s: "s < num_states m"
  shows "reward (update_reward_function m) ! s =
           (if reward_counts m ! s ! 1 > 0 then reward_counts m ! s ! 0 / reward_counts m ! s ! 1
            else reward m ! s)"
  using assms by (simp add: update_reward_function_def wf_mdp_def)

lemma update_mdp_parameters_Some:
  assumes "update_mdp_parameters g tol m = Some m'"
  shows "\<exists>v. value_iteration (transition_probs (update_transition_function m))
               (reward (update_reward_function (update_transition_function m))) g tol (value_fn m)
             = Some v
           \<and> m' = (update_reward_function (update_transition_function m))\<lparr> value_fn := v \<rparr>"
  using assms
  by (auto simp: update_mdp_parameters_def Let_def update_reward_function_fields
      update_transition_function_fields)

lemma update_mdp_parameters_inv:
  assumes wf: "wf_mdp m" and nn: "counts_nonneg m" and st: "row_stochastic (transition_probs m)"
    and up: "update_mdp_parameters g tol m = Some m'"
  shows "wf_mdp m'" "counts_nonneg m'" "row_stochastic (transition_probs m')"
proof -
  let ?m1 = "update_transition_function m"
  let ?m2 = "update_reward_function ?m1"
  from update_mdp_parameters_Some[OF up] obtain v where
    v: "value_iteration (transition_probs ?m1) (reward ?m2) g tol (value_fn m) = Some v"
    and m': "m' = ?m2\<lparr> value_fn := v \<rparr>"
    by blast
  have sh: "shape3 (num_states m) (transition_probs ?m1)"
    by (rule update_transition_function_shape[OF wf])
  have lr: "length (reward ?m2) = num_states m"
    using wf by (simp add: update_reward_function_def update_transition_function_fields wf_mdp_def)
  have lv: "length v = num_states m"
    using value_iteration_length[OF v] lr sh by (simp add: shape3_def)
  show "wf_mdp m'"
    using wf sh lr lv
    by (simp add: m' wf_mdp_def update_reward_function_fields update_transition_function_fields)
  show "counts_nonneg m'"
    using nn
    by (simp add: m' counts_nonneg_def update_reward_function_fields
        update_transition_function_fields)
  show "row_stochastic (transition_probs m')"
    using update_transition_function_stochastic[OF wf nn st]
    by (simp add: m' update_reward_function_fields)
qed

lemma update_mdp_parameters_returns:
  assumes wf: "wf_mdp m" and nn: "counts_nonneg m" and st: "row_stochastic (transition_probs m)"
    and g: "0 \<le> g" "g < 1" and tol: "0 < tol"
  shows "\<exists>m'. update_mdp_parameters g tol m = Some m'"
proof -
  let ?m1 = "update_transition_function m"
  let ?m2 = "update_reward_function ?m1"
  have sh: "shape3 (num_states m) (transition_probs ?m1)"
    by (rule update_transition_function_shape[OF wf])
  have lr: "length (reward ?m2) = num_states m"
    using wf by (simp add: update_reward_function_def update_transition_function_fields wf_mdp_def)
  have lv: "length (value_fn m) = num_states m" and n: "0 < num_states m"
    using wf by (simp_all add: wf_mdp_def)
  obtain k where "value_iteration (transition_probs ?m1) (reward ?m2) g tol (value_fn m)
      = Some ((new_value (transition_probs ?m1) (reward ?m2) g ^^ Suc k) (value_fn m))"
    using value_iteration_least[OF sh update_transition_function_stochastic[OF wf nn st]
        lr lv n g tol] by blast
  then show ?thesis
    by (simp add: update_mdp_parameters_def Let_def update_reward_function_fields
        update_transition_function_fields)
qed

lemma reachable_mdp_inv:
  "reachable_mdp m \<Longrightarrow> wf_mdp m \<and> counts_nonneg m \<and> row_stochastic (transition_probs m)"
proof (induction rule: reachable_mdp.induct)
  case (init n_x max_dx m)
  then show ?case using initialize_wf by blast
next
  case (counts m obs a new_obs rew isCrashed m')
  then show ?case using update_mdp_counts_inv[of m obs a new_obs rew isCrashed m'] by simp
next
  case (parameters m g tol m')
  then show ?case using update_mdp_parameters_inv[of m g tol m'] by blast
qed

lemma initialize_arrays:
  assumes "initialize_mdp_data n_x max_dx = Inr m"
  shows "transition_counts m = replicate (num_states m) (replicate 3 (replicate (num_states m) 0))"
    "transition_probs m = replicate (num_states m)
        (replicate 3 (replicate (num_states m) (1 / real (num_states m))))"
    "reward_counts m = replicate (num_states m) (replicate 2 0)"
    "reward m = replicate (num_states m) 0"
    "value_fn m = replicate (num_states m) 0"
  using initialize_fields[OF initialize_nonneg[OF assms], of max_dx] assms by auto

lemma update_mdp_parameters_post:
  assumes wf: "wf_mdp m" and up: "update_mdp_parameters g tol m = Some m'"
  shows "\<forall>s<num_states m. \<forall>a<3. transition_probs m' ! s ! a =
           (if sum_list (transition_counts m ! s ! a) > 0
            then map (\<lambda>x. x / sum_list (transition_counts m ! s ! a)) (transition_counts m ! s ! a)
            else transition_probs m ! s ! a)"
    and "\<forall>s<num_states m. reward m' ! s =
           (if reward_counts m ! s ! 1 > 0 then reward_counts m ! s ! 0 / reward_counts m ! s ! 1
            else reward m ! s)"
    and "transition_counts m' = transition_counts m" and "reward_counts m' = reward_counts m"
    and "num_states m' = num_states m"
proof -
  let ?m1 = "update_transition_function m"
  let ?m2 = "update_reward_function ?m1"
  from update_mdp_parameters_Some[OF up] obtain v where m': "m' = ?m2\<lparr> value_fn := v \<rparr>"
    by blast
  have wf1: "wf_mdp ?m1"
    using wf update_transition_function_shape[OF wf]
    by (simp add: wf_mdp_def update_transition_function_fields)
  show "\<forall>s<num_states m. \<forall>a<3. transition_probs m' ! s ! a =
           (if sum_list (transition_counts m ! s ! a) > 0
            then map (\<lambda>x. x / sum_list (transition_counts m ! s ! a)) (transition_counts m ! s ! a)
            else transition_probs m ! s ! a)"
    by (simp add: m' update_reward_function_fields nth_update_transition_function[OF wf])
  show "\<forall>s<num_states m. reward m' ! s =
           (if reward_counts m ! s ! 1 > 0 then reward_counts m ! s ! 0 / reward_counts m ! s ! 1
            else reward m ! s)"
    using nth_update_reward_function[OF wf1]
    by (simp add: m' update_transition_function_fields)
  show "transition_counts m' = transition_counts m" "reward_counts m' = reward_counts m"
    "num_states m' = num_states m"
    by (simp_all add: m' update_reward_function_fields update_transition_function_fields)
qed

lemma sum_list_replicate_update:
  "i < n \<Longrightarrow> sum_list ((replicate n (0::real))[i := x]) = x"
  by (simp add: upd_conv_take_nth_drop sum_list_replicate)

text \<open>The model after one recorded transition from the state 1 to the state 2 by a jump.\<close>

lemma single_transition_counts:
  assumes init: "initialize_mdp_data n_x max_dx = Inr m0"
    and idx: "get_closest_state_idx m0 obs2 False = Inr 2"
    and up: "update_mdp_counts m0 None 1 obs2 1 False = Inr m"
  shows "2 < num_states m" "num_states m = num_states m0"
    "transition_counts m ! 1 ! 1 = (replicate (num_states m) 0)[2 := 1]"
    "transition_counts m ! 1 ! 0 = replicate (num_states m) 0"
    "transition_counts m ! 1 ! 2 = replicate (num_states m) 0"
    "reward_counts m ! 2 = [1, 1]"
    "transition_probs m = transition_probs m0"
    "reward m = reward m0"
proof -
  from update_mdp_counts_Inr[OF up] idx obtain k where
    k: "np_index 3 1 = Inr k" and n2: "2 < num_states m0"
    and m: "m = m0\<lparr> transition_counts :=
                      (transition_counts m0)[1 := (transition_counts m0 ! 1)[k :=
                         (transition_counts m0 ! 1 ! k)[2 := transition_counts m0 ! 1 ! k ! 2 + 1]]],
                    reward_counts :=
                      (reward_counts m0)[2 := [reward_counts m0 ! 2 ! 0 + 1,
                                               reward_counts m0 ! 2 ! 1 + 1]] \<rparr>"
    by (auto simp: get_closest_state_idx_def)
  have k1: "k = 1" using k by (simp add: np_index_def)
  note a = initialize_arrays[OF init]
  show ns: "num_states m = num_states m0" by (simp add: m)
  show "2 < num_states m" using n2 ns by simp
  show "transition_counts m ! 1 ! 1 = (replicate (num_states m) 0)[2 := 1]"
    using n2 by (simp add: m k1 a(1))
  show "transition_counts m ! 1 ! 0 = replicate (num_states m) 0"
    using n2 by (simp add: m k1 a(1))
  show "transition_counts m ! 1 ! 2 = replicate (num_states m) 0"
    using n2 by (simp add: m k1 a(1))
  show "reward_counts m ! 2 = [1, 1]"
    using n2 by (simp add: m a(3))
  show "transition_probs m = transition_probs m0" "reward m = reward m0"
    by (simp_all add: m)
qed

lemma single_transition_refit:
  assumes init: "initialize_mdp_data n_x max_dx = Inr m0"
    and idx: "get_closest_state_idx m0 obs2 False = Inr 2"
    and up: "update_mdp_counts m0 None 1 obs2 1 False = Inr m"
    and re: "update_mdp_parameters g tol m = Some m'"
  shows "transition_probs m' ! 1 ! 1 = (replicate (num_states m) 0)[2 := 1]"
    "transition_probs m' ! 1 ! 0 = replicate (num_states m) (1 / real (num_states m))"
    "transition_probs m' ! 1 ! 2 = replicate (num_states m) (1 / real (num_states m))"
    "reward m' ! 2 = 1"
proof -
  note c = single_transition_counts[OF init idx up]
  note a = initialize_arrays[OF init]
  have wf0: "wf_mdp m0" "counts_nonneg m0" using initialize_wf[OF init] by simp_all
  have wf: "wf_mdp m" using update_mdp_counts_inv(1)[OF wf0 up] .
  note p = update_mdp_parameters_post[OF wf re]
  have n1: "1 < num_states m" using c(1) by simp
  have s1: "sum_list ((replicate (num_states m) (0::real))[2 := 1]) = 1"
    using c(1) by (rule sum_list_replicate_update)
  have m1: "map (\<lambda>x. x / 1) ((replicate (num_states m) (0::real))[2 := 1])
      = (replicate (num_states m) 0)[2 := 1]"
    by simp
  have lt: "(0::nat) < 3" "(1::nat) < 3" "(2::nat) < 3" by simp_all
  have z: "sum_list (replicate (num_states m) (0::real)) = 0" by (simp add: sum_list_replicate)
  show "transition_probs m' ! 1 ! 1 = (replicate (num_states m) 0)[2 := 1]"
    unfolding p(1)[rule_format, OF n1 lt(2)] c(3) s1 by simp
  have u: "transition_probs m ! 1 ! a = replicate (num_states m) (1 / real (num_states m))"
    if "a < 3" for a
    using that n1 by (simp add: c(7) a(2) c(2))
  show "transition_probs m' ! 1 ! 0 = replicate (num_states m) (1 / real (num_states m))"
    unfolding p(1)[rule_format, OF n1 lt(1)] c(4) z u[OF lt(1)] by simp
  show "transition_probs m' ! 1 ! 2 = replicate (num_states m) (1 / real (num_states m))"
    unfolding p(1)[rule_format, OF n1 lt(3)] c(5) z u[OF lt(3)] by simp
  show "reward m' ! 2 = 1"
    unfolding p(2)[rule_format, OF c(1)] c(6) by simp
qed

lemma update_mdp_counts_returns:
  assumes "get_closest_state_idx m obs False = Inr s"
    and "get_closest_state_idx m new_obs isCrashed = Inr new_s"
    and "np_index 3 a = Inr k" and "s < num_states m" and "new_s < num_states m"
  shows "\<exists>m'. update_mdp_counts m obs a new_obs rew isCrashed = Inr m'"
  using assms by (simp add: update_mdp_counts_def Let_def)

lemma scenario_init: "initialize_mdp_data 1 600 = Inr scenario_m0"
  unfolding scenario_m0_def by (rule initialize_projr) simp

lemma scenario_grid: "dx_s scenario_m0 = [0]"
  by (simp add: scenario_m0_def initialize_mdp_data_def np_linspace_def Let_def)

lemma scenario_idx: "get_closest_state_idx scenario_m0 (Some scenario_obs) False = Inr 2"
  using initialize_shape[OF scenario_init]
  by (simp add: get_closest_state_idx_def scenario_grid scenario_obs_def OBSTACLE_TYPES_def
      np_argmin_def Let_def)

lemma scenario_counts:
  "update_mdp_counts scenario_m0 None 1 (Some scenario_obs) 1 False = Inr scenario_m1"
proof -
  have n: "num_states scenario_m0 = 11" using initialize_shape[OF scenario_init] by simp
  have "\<exists>m'. update_mdp_counts scenario_m0 None 1 (Some scenario_obs) 1 False = Inr m'"
    by (rule update_mdp_counts_returns[OF _ scenario_idx, of None 1 1 1])
      (simp_all add: get_closest_state_idx_def np_index_def n)
  then show ?thesis unfolding scenario_m1_def by auto
qed

lemma scenario_reachable1: "reachable_mdp scenario_m1"
  by (rule reachable_mdp.counts[OF reachable_mdp.init[OF scenario_init] scenario_counts])

lemma scenario_refit: "update_mdp_parameters (1 / 2) (1 / 100) scenario_m1 = Some scenario_m2"
proof -
  note i = reachable_mdp_inv[OF scenario_reachable1]
  have "\<exists>m'. update_mdp_parameters (1 / 2) (1 / 100) scenario_m1 = Some m'"
    by (rule update_mdp_parameters_returns) (use i in simp_all)
  then show ?thesis unfolding scenario_m2_def by auto
qed

lemma scenario_num_states: "num_states scenario_m1 = 11" "num_states scenario_m2 = 11"
proof -
  have n: "num_states scenario_m0 = 11" using initialize_shape[OF scenario_init] by simp
  have wf0: "wf_mdp scenario_m0" "counts_nonneg scenario_m0"
    using initialize_wf[OF scenario_init] by simp_all
  show 1: "num_states scenario_m1 = 11"
    using update_mdp_counts_inv(4)[OF wf0 scenario_counts] n by simp
  have "wf_mdp scenario_m1" using reachable_mdp_inv[OF scenario_reachable1] by simp
  from update_mdp_parameters_post(5)[OF this scenario_refit] 1
  show "num_states scenario_m2 = 11" by simp
qed



text \<open>
  Claim C5. For a model of the right shapes, a call of \<^verbatim>\<open>update_mdp_parameters\<close> that
  returns leaves this behind: every row \<open>transition_probs[s, a, :]\<close> whose counts have a
  positive sum is the counts divided by that sum, every other row is what it was; the
  reward of every state with a positive visit count is the accumulated reward divided by
  that count, every other reward is what it was; the counts and the reward accumulators are
  unchanged. After a single recorded transition from the state 1 by the action 1 to the
  state 2 with reward 1 and no crash, in a fresh model, the row \<open>[1, 1]\<close> is the point
  mass on the state 2, the rows \<open>[1, 0]\<close> and \<open>[1, 2]\<close> are still uniform, and the
  reward of the state 2 is 1. The call does return when the rows are stochastic, the counts
  non-negative, \<open>0 \<le> g < 1\<close> and \<open>0 < tol\<close>.
\<close>

theorem refit_postcondition:
  assumes "wf_mdp m"
  shows "(\<forall>m'. update_mdp_parameters g tol m = Some m' \<longrightarrow>
            (\<forall>s<num_states m. \<forall>a<3. transition_probs m' ! s ! a =
               (if sum_list (transition_counts m ! s ! a) > 0
                then map (\<lambda>x. x / sum_list (transition_counts m ! s ! a)) (transition_counts m ! s ! a)
                else transition_probs m ! s ! a))
            \<and> (\<forall>s<num_states m. reward m' ! s =
               (if reward_counts m ! s ! 1 > 0
                then reward_counts m ! s ! 0 / reward_counts m ! s ! 1
                else reward m ! s))
            \<and> transition_counts m' = transition_counts m
            \<and> reward_counts m' = reward_counts m
            \<and> (\<forall>n_x max_dx m0 obs2.
                  initialize_mdp_data n_x max_dx = Inr m0
                  \<and> get_closest_state_idx m0 obs2 False = Inr 2
                  \<and> update_mdp_counts m0 None 1 obs2 1 False = Inr m
                  \<longrightarrow> transition_probs m' ! 1 ! 1 = (replicate (num_states m) 0)[2 := 1]
                     \<and> transition_probs m' ! 1 ! 0 = replicate (num_states m) (1 / real (num_states m))
                     \<and> transition_probs m' ! 1 ! 2 = replicate (num_states m) (1 / real (num_states m))
                     \<and> reward m' ! 2 = 1))
    \<and> (counts_nonneg m \<and> row_stochastic (transition_probs m) \<and> 0 \<le> g \<and> g < 1 \<and> 0 < tol
          \<longrightarrow> (\<exists>m'. update_mdp_parameters g tol m = Some m'))"
proof -
  have post: "(\<forall>s<num_states m. \<forall>a<3. transition_probs m' ! s ! a =
               (if sum_list (transition_counts m ! s ! a) > 0
                then map (\<lambda>x. x / sum_list (transition_counts m ! s ! a)) (transition_counts m ! s ! a)
                else transition_probs m ! s ! a))
            \<and> (\<forall>s<num_states m. reward m' ! s =
               (if reward_counts m ! s ! 1 > 0
                then reward_counts m ! s ! 0 / reward_counts m ! s ! 1
                else reward m ! s))
            \<and> transition_counts m' = transition_counts m
            \<and> reward_counts m' = reward_counts m
            \<and> (\<forall>n_x max_dx m0 obs2.
                  initialize_mdp_data n_x max_dx = Inr m0
                  \<and> get_closest_state_idx m0 obs2 False = Inr 2
                  \<and> update_mdp_counts m0 None 1 obs2 1 False = Inr m
                  \<longrightarrow> transition_probs m' ! 1 ! 1 = (replicate (num_states m) 0)[2 := 1]
                     \<and> transition_probs m' ! 1 ! 0 = replicate (num_states m) (1 / real (num_states m))
                     \<and> transition_probs m' ! 1 ! 2 = replicate (num_states m) (1 / real (num_states m))
                     \<and> reward m' ! 2 = 1)"
    if up: "update_mdp_parameters g tol m = Some m'" for m'
  proof -
    note p = update_mdp_parameters_post[OF assms up]
    have scen: "\<forall>n_x max_dx m0 obs2.
                  initialize_mdp_data n_x max_dx = Inr m0
                  \<and> get_closest_state_idx m0 obs2 False = Inr 2
                  \<and> update_mdp_counts m0 None 1 obs2 1 False = Inr m
                  \<longrightarrow> transition_probs m' ! 1 ! 1 = (replicate (num_states m) 0)[2 := 1]
                     \<and> transition_probs m' ! 1 ! 0 = replicate (num_states m) (1 / real (num_states m))
                     \<and> transition_probs m' ! 1 ! 2 = replicate (num_states m) (1 / real (num_states m))
                     \<and> reward m' ! 2 = 1"
    proof (intro allI impI)
      fix n_x max_dx m0 obs2
      assume h: "initialize_mdp_data n_x max_dx = Inr m0
                  \<and> get_closest_state_idx m0 obs2 False = Inr 2
                  \<and> update_mdp_counts m0 None 1 obs2 1 False = Inr m"
      note r = single_transition_refit[OF conjunct1[OF h] conjunct1[OF conjunct2[OF h]]
          conjunct2[OF conjunct2[OF h]] up]
      show "transition_probs m' ! 1 ! 1 = (replicate (num_states m) 0)[2 := 1]
                     \<and> transition_probs m' ! 1 ! 0 = replicate (num_states m) (1 / real (num_states m))
                     \<and> transition_probs m' ! 1 ! 2 = replicate (num_states m) (1 / real (num_states m))
                     \<and> reward m' ! 2 = 1"
        by (intro conjI r)
    qed
    show ?thesis by (intro conjI p(1) p(2) p(3) p(4) scen)
  qed
  have ret: "counts_nonneg m \<and> row_stochastic (transition_probs m) \<and> 0 \<le> g \<and> g < 1 \<and> 0 < tol
          \<longrightarrow> (\<exists>m'. update_mdp_parameters g tol m = Some m')"
    using update_mdp_parameters_returns[OF assms, of g tol] by blast
  show ?thesis using post ret by blast
qed

theorem refit_postcondition_witness:
  "wf_mdp scenario_m1
   \<and> initialize_mdp_data 1 600 = Inr scenario_m0
   \<and> get_closest_state_idx scenario_m0 (Some scenario_obs) False = Inr 2
   \<and> update_mdp_counts scenario_m0 None 1 (Some scenario_obs) 1 False = Inr scenario_m1
   \<and> update_mdp_parameters (1 / 2) (1 / 100) scenario_m1 = Some scenario_m2
   \<and> transition_probs scenario_m2 ! 1 ! 1 = (replicate 11 0)[2 := 1]
   \<and> transition_probs scenario_m2 ! 1 ! 0 = replicate 11 (1 / 11)
   \<and> transition_probs scenario_m2 ! 1 ! 2 = replicate 11 (1 / 11)
   \<and> reward scenario_m2 ! 2 = 1"
proof -
  have wf: "wf_mdp scenario_m1" using reachable_mdp_inv[OF scenario_reachable1] by simp
  have h: "initialize_mdp_data 1 600 = Inr scenario_m0
                  \<and> get_closest_state_idx scenario_m0 (Some scenario_obs) False = Inr 2
                  \<and> update_mdp_counts scenario_m0 None 1 (Some scenario_obs) 1 False = Inr scenario_m1"
    by (intro conjI scenario_init scenario_idx scenario_counts)
  have c: "transition_probs scenario_m2 ! 1 ! 1 = (replicate (num_states scenario_m1) 0)[2 := 1]
      \<and> transition_probs scenario_m2 ! 1 ! 0
          = replicate (num_states scenario_m1) (1 / real (num_states scenario_m1))
      \<and> transition_probs scenario_m2 ! 1 ! 2
          = replicate (num_states scenario_m1) (1 / real (num_states scenario_m1))
      \<and> reward scenario_m2 ! 2 = 1"
    using refit_postcondition[OF wf, of "1 / 2" "1 / 100"] scenario_refit h by blast
  have c': "transition_probs scenario_m2 ! 1 ! 1 = (replicate 11 0)[2 := 1]
      \<and> transition_probs scenario_m2 ! 1 ! 0 = replicate 11 (1 / 11)
      \<and> transition_probs scenario_m2 ! 1 ! 2 = replicate 11 (1 / 11)
      \<and> reward scenario_m2 ! 2 = 1"
    using c unfolding scenario_num_states by simp
  show ?thesis using wf scenario_init scenario_idx scenario_counts scenario_refit c' by blast
qed

subsection \<open>The choice of the best action\<close>

text \<open>
  Claim C7. When the state has the index \<open>s\<close> in the model, \<^verbatim>\<open>best_action\<close> returns
  1 (jump) if the score of the jump is above the score of doing nothing and not below the
  score of ducking; otherwise 2 (duck) if the score of ducking is above both others;
  otherwise 0 (nothing). Each score is the dot product of the row
  \<open>transition_probs[s, a, :]\<close> with the value function. Three equal scores give 0. When
  the state has no index, the exception of the discretisation is the result.
\<close>

theorem best_action_rule:
  assumes "get_closest_state_idx m obs False = Inr s" and "s < num_states m"
  shows "best_action m obs =
           Inr (if dot (transition_probs m ! s ! 1) (value_fn m) > dot (transition_probs m ! s ! 0) (value_fn m)
                   \<and> dot (transition_probs m ! s ! 1) (value_fn m) \<ge> dot (transition_probs m ! s ! 2) (value_fn m)
                then 1
                else if dot (transition_probs m ! s ! 2) (value_fn m) > dot (transition_probs m ! s ! 0) (value_fn m)
                   \<and> dot (transition_probs m ! s ! 2) (value_fn m) > dot (transition_probs m ! s ! 1) (value_fn m)
                then 2
                else 0)
    \<and> (dot (transition_probs m ! s ! 0) (value_fn m) = dot (transition_probs m ! s ! 1) (value_fn m)
        \<and> dot (transition_probs m ! s ! 1) (value_fn m) = dot (transition_probs m ! s ! 2) (value_fn m)
        \<longrightarrow> best_action m obs = Inr 0)
    \<and> (\<forall>e obs'. get_closest_state_idx m obs' False = Inl e \<longrightarrow> best_action m obs' = Inl e)"
  using assms by (simp add: best_action_def Let_def)

theorem best_action_rule_witness:
  "get_closest_state_idx example_mdp None False = Inr 1
   \<and> 1 < num_states example_mdp
   \<and> dot (transition_probs example_mdp ! 1 ! 0) (value_fn example_mdp) = 1
   \<and> dot (transition_probs example_mdp ! 1 ! 1) (value_fn example_mdp) = 3
   \<and> dot (transition_probs example_mdp ! 1 ! 2) (value_fn example_mdp) = 5
   \<and> best_action example_mdp None = Inr 2"
proof -
  have h1: "get_closest_state_idx example_mdp None False = Inr 1"
    by (simp add: get_closest_state_idx_def)
  have h2: "1 < num_states example_mdp" by (simp add: example_mdp_def)
  have q0: "dot (transition_probs example_mdp ! 1 ! 0) (value_fn example_mdp) = 1"
    and q1: "dot (transition_probs example_mdp ! 1 ! 1) (value_fn example_mdp) = 3"
    and q2: "dot (transition_probs example_mdp ! 1 ! 2) (value_fn example_mdp) = 5"
    by (simp_all add: example_mdp_def example_P_def)
  have b: "best_action example_mdp None = Inr 2"
    using conjunct1[OF best_action_rule[OF h1 h2]] unfolding q0 q1 q2 by simp
  show ?thesis by (intro conjI h1 h2 q0 q1 q2 b)
qed

subsection \<open>The exploration rate\<close>

lemma round_half_even_ge_floor: "\<lfloor>y\<rfloor> \<le> round_half_even y"
  by (simp add: round_half_even_def Let_def)

text \<open>Rounding never takes a number that is at least 1 below 1.\<close>

lemma round_binary64_ge_1:
  assumes x: "1 \<le> x"
  shows "1 \<le> round_binary64 x"
proof -
  define n where "n = nat \<lfloor>x\<rfloor>"
  define k where "k = floorlog 2 n - 1"
  have n0: "0 < n" using x by (simp add: n_def)
  have nx: "real n \<le> x" using x by (simp add: n_def)
  have fl: "1 \<le> floorlog 2 n" using n0 by (simp add: floorlog_def)
  have e: "binary64_exponent x = int k"
    using x fl by (simp add: binary64_exponent_def n_def k_def)
  have "2 ^ k \<le> n" using floorlog_bounds[of n 2] n0 by (simp add: k_def)
  then have "(2::real) ^ k \<le> real n" by (metis of_nat_le_iff of_nat_numeral of_nat_power)
  then have kx: "(2::real) ^ k \<le> x" using nx by linarith
  define u :: real where "u = 2 powi (int k - 52)"
  have u: "u = 2 ^ k / 2 ^ 52"
    by (simp add: u_def power_int_diff)
  have u0: "0 < u" by (simp add: u)
  have "2 ^ 52 \<le> x / u" using kx by (simp add: u field_simps)
  then have "of_int (2 ^ 52) \<le> x / u" by simp
  then have "(2::int) ^ 52 \<le> \<lfloor>x / u\<rfloor>" by (simp only: le_floor_iff)
  then have "(2::int) ^ 52 \<le> round_half_even (x / u)"
    using round_half_even_ge_floor[of "x / u"] by linarith
  then have "(2::real) ^ 52 \<le> of_int (round_half_even (x / u))"
    by (metis of_int_le_iff of_int_numeral of_int_power)
  then have "2 ^ 52 * u \<le> of_int (round_half_even (x / u)) * u"
    using u0 by (simp only: mult_le_cancel_right_pos)
  moreover have "2 ^ 52 * u = 2 ^ k" by (simp add: u)
  moreover have "(1::real) \<le> 2 ^ k" by simp
  ultimately have "1 \<le> of_int (round_half_even (x / u)) * u" by linarith
  then show ?thesis by (simp add: round_binary64_def e u_def Let_def)
qed

lemma float_0_01_pos: "0 < float_0_01"
  by (simp add: float_0_01_def)

lemma fadd_ge_1: "1 \<le> x \<Longrightarrow> 1 \<le> fadd x float_0_01"
  unfolding fadd_def using float_0_01_pos by (intro round_binary64_ge_1) linarith

lemma eps_iterate_ge_1: "1 \<le> ((\<lambda>e. fadd e float_0_01) ^^ N) 1"
  by (induction N) (simp_all add: fadd_ge_1)












































lemma dot_replicate_zero: "dot p (replicate n 0) = 0"
proof (induction p arbitrary: n)
  case Nil
  then show ?case by simp
next
  case (Cons x p)
  then show ?case by (cases n) (simp_all add: dot_def)
qed


lemma AIAgent_init_Inr:
  assumes "AIAgent_init args_gamma args_tolerance n_x max_dx dino_state = Inr a"
  shows "\<exists>m. initialize_mdp_data n_x max_dx = Inr m
           \<and> a = \<lparr> gamma = args_gamma, eps = 1, tolerance = args_tolerance, mdp = m,
                   state = dino_state, action = 0 \<rparr>"
  using assms by (auto simp: AIAgent_init_def split: sum.splits)

lemma reset_Some:
  assumes "reset a = Some a'"
  shows "\<exists>m'. update_mdp_parameters (gamma a) (tolerance a) (mdp a) = Some m'
           \<and> a' = a\<lparr> mdp := m', eps := fadd (eps a) float_0_01 \<rparr>"
  using assms by (auto simp: reset_def)



lemma choose_action_greedy:
  "1 \<le> eps a \<Longrightarrow> r1 < 1 \<Longrightarrow> choose_action a r1 r2 = greedy_branch a"
  by (simp add: choose_action_def greedy_branch_def)

lemma reachable_agent_eps: "reachable_agent a \<Longrightarrow> 1 \<le> eps a"
proof (induction rule: reachable_agent.induct)
  case (created args_gamma args_tolerance n_x max_dx dino_state a)
  then show ?case using AIAgent_init_Inr by fastforce
next
  case (chosen a r1 r2 a')
  then show ?case
    by (auto simp: choose_action_def split: if_splits sum.splits)
next
  case (transition a isCrashed new_state a')
  then show ?case by (auto simp: set_transition_def split: sum.splits)
next
  case (restarted a a')
  from reset_Some[OF restarted.hyps(2)] have "eps a' = fadd (eps a) float_0_01" by auto
  with restarted.IH show ?case by (simp add: fadd_ge_1)
qed

lemma example_agent_init: "AIAgent_init (1 / 2) (1 / 100) 1 600 None = Inr example_agent"
  using initialize_projr[of 1 600]
  by (auto simp: example_agent_def AIAgent_init_def split: sum.splits)

lemma example_agent_fields:
  "eps example_agent = 1" "gamma example_agent = 1 / 2" "tolerance example_agent = 1 / 100"
  "state example_agent = None" "initialize_mdp_data 1 600 = Inr (mdp example_agent)"
proof -
  from AIAgent_init_Inr[OF example_agent_init] obtain m where
    m: "initialize_mdp_data 1 600 = Inr m"
    and e: "example_agent = \<lparr> gamma = 1 / 2, eps = 1, tolerance = 1 / 100, mdp = m,
                   state = None, action = 0 \<rparr>"
    by blast
  show "eps example_agent = 1" "gamma example_agent = 1 / 2" "tolerance example_agent = 1 / 100"
    "state example_agent = None"
    by (simp_all add: e)
  show "initialize_mdp_data 1 600 = Inr (mdp example_agent)" by (simp add: e m)
qed


lemma best_action_initial:
  assumes "initialize_mdp_data n_x max_dx = Inr m"
  shows "best_action m None = Inr 0"
proof -
  have n: "1 < num_states m" using initialize_shape[OF assms] by simp
  have v: "value_fn m = replicate (num_states m) 0" by (rule initialize_arrays(5)[OF assms])
  have i: "get_closest_state_idx m None False = Inr 1" by (simp add: get_closest_state_idx_def)
  show ?thesis using n by (simp add: best_action_def i v dot_replicate_zero)
qed





text \<open>
  Claim C9. Every agent that the program can hold, from \<^verbatim>\<open>__init__\<close> on and before
  any reset, has \<^verbatim>\<open>eps\<close> at least 1: it starts at 1 and only \<^verbatim>\<open>reset\<close> changes it,
  by a rounded addition of \<^verbatim>\<open>0.01\<close>. So every first draw in \<open>[0, 1)\<close> is below
  \<^verbatim>\<open>eps\<close>, and \<^verbatim>\<open>choose_action\<close> is its greedy branch: the second draw and the
  exploring branch have no part in the result.
\<close>

theorem exploration_unreachable:
  assumes "reachable_agent a"
  shows "1 \<le> eps a
    \<and> (\<forall>r1 r2. 0 \<le> r1 \<and> r1 < 1 \<longrightarrow> r1 < eps a \<and> choose_action a r1 r2 = greedy_branch a)"
proof -
  have e: "1 \<le> eps a" by (rule reachable_agent_eps[OF assms])
  have "r1 < eps a \<and> choose_action a r1 r2 = greedy_branch a" if "r1 < 1" for r1 r2
    using that e choose_action_greedy[OF e that] by simp
  with e show ?thesis by blast
qed

theorem exploration_unreachable_witness:
  "reachable_agent example_agent
   \<and> eps example_agent = 1
   \<and> choose_action example_agent (99 / 100) (1 / 1000) = Inr (example_agent\<lparr> action := 0 \<rparr>)"
proof -
  have r: "reachable_agent example_agent"
    by (rule reachable_agent.created[OF example_agent_init])
  have g: "greedy_branch example_agent = Inr (example_agent\<lparr> action := 0 \<rparr>)"
    using best_action_initial[OF example_agent_fields(5)]
    by (simp add: greedy_branch_def example_agent_fields(4))
  have c: "choose_action example_agent (99 / 100) (1 / 1000) = Inr (example_agent\<lparr> action := 0 \<rparr>)"
    using exploration_unreachable[OF r] g by simp
  show ?thesis by (intro conjI r example_agent_fields(1) c)
qed

text \<open>
  The values of \<^verbatim>\<open>eps\<close> stay in the range where \<open>round_binary64\<close> is the rounding of
  binary64: they are at least 1, and none is above \<open>2 ^ 47\<close>, where the spacing of the
  floats has grown so wide that adding \<^verbatim>\<open>0.01\<close> changes nothing.
\<close>

lemma binary64_exponent_bounds:
  assumes x: "1 \<le> x"
  shows "\<exists>k. binary64_exponent x = int k \<and> 2 ^ k \<le> x \<and> x < 2 ^ Suc k"
proof -
  define n where "n = nat \<lfloor>x\<rfloor>"
  define k where "k = floorlog 2 n - 1"
  have n0: "0 < n" using x by (simp add: n_def)
  have nx: "real n \<le> x" using x by (simp add: n_def)
  have xn: "x < real n + 1" using x by (simp add: n_def)
  have fl: "1 \<le> floorlog 2 n" using n0 by (simp add: floorlog_def)
  have e: "binary64_exponent x = int k"
    using x fl by (simp add: binary64_exponent_def n_def k_def)
  have b: "2 ^ k \<le> n" "n < 2 ^ Suc k"
    using floorlog_bounds[of n 2] n0 fl by (simp_all add: k_def)
  from b(1) have "(2::real) ^ k \<le> real n" by (metis of_nat_le_iff of_nat_numeral of_nat_power)
  then have lo: "(2::real) ^ k \<le> x" using nx by linarith
  from b(2) have "n + 1 \<le> 2 ^ Suc k" by simp
  then have "real (n + 1) \<le> 2 ^ Suc k" by (metis of_nat_le_iff of_nat_numeral of_nat_power)
  then have hi: "x < 2 ^ Suc k" using xn by simp
  show ?thesis using e lo hi by blast
qed

lemma round_half_even_le: "round_half_even y \<le> \<lfloor>y\<rfloor> + 1"
  by (simp add: round_half_even_def Let_def)

lemma round_half_even_int: "round_half_even (of_int z) = z"
  by (simp add: round_half_even_def Let_def)

lemma round_binary64_le_pow:
  assumes x: "1 \<le> x" and j: "x \<le> 2 ^ j"
  shows "round_binary64 x \<le> 2 ^ j"
proof -
  from binary64_exponent_bounds[OF x] obtain k where
    e: "binary64_exponent x = int k" and lo: "2 ^ k \<le> x" and hi: "x < 2 ^ Suc k"
    by blast
  define u :: real where "u = 2 powi (int k - 52)"
  have u: "u = 2 ^ k / 2 ^ 52" by (simp add: u_def power_int_diff)
  have u0: "0 < u" by (simp add: u)
  have r: "round_binary64 x = of_int (round_half_even (x / u)) * u"
    by (simp add: round_binary64_def e u_def Let_def)
  have "x / u < 2 ^ 53" using hi by (simp add: u field_simps)
  then have "x / u < of_int (2 ^ 53)" by simp
  then have "\<lfloor>x / u\<rfloor> < 2 ^ 53" by (simp only: floor_less_iff)
  then have "round_half_even (x / u) \<le> 2 ^ 53"
    using round_half_even_le[of "x / u"] by linarith
  then have "(of_int (round_half_even (x / u)) :: real) \<le> 2 ^ 53"
    by (metis of_int_le_iff of_int_numeral of_int_power)
  then have "of_int (round_half_even (x / u)) * u \<le> 2 ^ 53 * u"
    using u0 by (simp only: mult_le_cancel_right_pos)
  moreover have "2 ^ 53 * u = 2 ^ Suc k" by (simp add: u)
  ultimately have up: "round_binary64 x \<le> 2 ^ Suc k" using r by simp
  show ?thesis
  proof (cases "Suc k \<le> j")
    case True
    then have "(2::real) ^ Suc k \<le> 2 ^ j" by (intro power_increasing) simp_all
    with up show ?thesis by linarith
  next
    case False
    then have jk: "j \<le> k" by simp
    then have "(2::real) ^ j \<le> 2 ^ k" by (intro power_increasing) simp_all
    with lo j have xk: "x = 2 ^ k" and kj: "(2::real) ^ k = 2 ^ j" by linarith+
    have "x / u = of_int (2 ^ 52)" by (simp add: xk u)
    then have "round_half_even (x / u) = 2 ^ 52" by (simp only: round_half_even_int)
    then have "round_binary64 x = 2 ^ 52 * u" using r by simp
    also have "\<dots> = 2 ^ k" by (simp add: u)
    finally show ?thesis using kj by simp
  qed
qed

lemma fadd_le_saturation:
  assumes x1: "1 \<le> x" and x: "x \<le> 2 ^ 47"
  shows "fadd x float_0_01 \<le> 2 ^ 47"
proof (cases "x + float_0_01 \<le> 2 ^ 47")
  case True
  show ?thesis unfolding fadd_def
    by (rule round_binary64_le_pow) (use x1 float_0_01_pos True in linarith)+
next
  case False
  let ?y = "x + float_0_01"
  have c: "float_0_01 < 1 / 64" by (simp add: float_0_01_def)
  have lo: "2 ^ 47 < ?y" using False by simp
  have hi: "?y < 2 ^ 47 + 1 / 64" using x c by linarith
  have y1: "1 \<le> ?y" using x1 float_0_01_pos by linarith
  from binary64_exponent_bounds[OF y1] obtain k where
    e: "binary64_exponent ?y = int k" and klo: "2 ^ k \<le> ?y" and khi: "?y < 2 ^ Suc k"
    by blast
  have "(2::real) ^ k < 2 ^ 48" using klo hi by simp
  then have k1: "k < 48" by (simp only: power_strict_increasing_iff)
  have "(2::real) ^ 47 < 2 ^ Suc k" using lo khi by linarith
  then have k2: "47 < Suc k" by (simp only: power_strict_increasing_iff)
  have k: "k = 47" using k1 k2 by simp
  have u: "(2::real) powi (int k - 52) = 1 / 32" by (simp add: k power_int_minus)
  have q: "?y / (1 / 32) = ?y * 32" by simp
  have f: "\<lfloor>?y * 32\<rfloor> = 2 ^ 52"
  proof (rule floor_unique)
    show "of_int (2 ^ 52) \<le> ?y * 32" using lo by simp
    show "?y * 32 < of_int (2 ^ 52) + 1" using hi by simp
  qed
  have fr: "?y * 32 - of_int \<lfloor>?y * 32\<rfloor> < 1 / 2" unfolding f using hi by simp
  have "round_half_even (?y * 32) = 2 ^ 52"
    using fr f by (simp add: round_half_even_def Let_def)
  then have "round_binary64 ?y = 2 ^ 52 * (1 / 32)"
    by (simp add: round_binary64_def e u Let_def)
  then show ?thesis by (simp add: fadd_def)
qed

lemma eps_iterate_le: "((\<lambda>e. fadd e float_0_01) ^^ N) 1 \<le> 2 ^ 47"
proof (induction N)
  case 0
  show ?case by simp
next
  case (Suc N)
  then show ?case using fadd_le_saturation[OF eps_iterate_ge_1[of N]] by simp
qed

lemma reachable_agent_eps_range: "reachable_agent a \<Longrightarrow> 1 \<le> eps a \<and> eps a \<le> 2 ^ 47"
proof (induction rule: reachable_agent.induct)
  case (created args_gamma args_tolerance n_x max_dx dino_state a)
  then show ?case using AIAgent_init_Inr by fastforce
next
  case (chosen a r1 r2 a')
  then show ?case
    by (auto simp: choose_action_def split: if_splits sum.splits)
next
  case (transition a isCrashed new_state a')
  then show ?case by (auto simp: set_transition_def split: sum.splits)
next
  case (restarted a a')
  from reset_Some[OF restarted.hyps(2)] have "eps a' = fadd (eps a) float_0_01" by auto
  moreover have "1 \<le> fadd (eps a) float_0_01" using restarted.IH by (intro fadd_ge_1) simp
  moreover have "fadd (eps a) float_0_01 \<le> 2 ^ 47"
    using restarted.IH by (intro fadd_le_saturation) simp_all
  ultimately show ?case by (simp only:) 
qed

end
